theory Spec2Isabelle
  imports Main "HOL-Library.Word" "HOL-Library.Sublist"
begin

section \<open>Data shared by all components\<close>

text \<open>
  A Go \<open>[]byte\<close> is a list of 8-bit words. A Go \<open>string\<close> is an immutable byte
  sequence as well: the DNS code converts between the two without changing a byte, so
  domain names stay byte lists; the command processor's text is a \<^typ>\<open>string\<close>, whose
  characters are bytes too.
\<close>

type_synonym byte = "8 word"

definition bytes_of :: "string \<Rightarrow> byte list" where
  "bytes_of s = map of_char s"


section \<open>DNS daemon: black-hole answers and domain name extraction\<close>

text \<open>The constants of package \<open>dnsd\<close>.\<close>

definition MinNameQuerySize :: nat where
  "MinNameQuerySize = 14"

definition StandardResponseNoError :: "byte list" where
  "StandardResponseNoError = [129, 128]"

definition BlackHoleAnswer :: "byte list" where
  "BlackHoleAnswer = [192, 12, 0, 1, 0, 1, 0, 0, 5, 186, 0, 4, 0, 0, 0, 0]"

text \<open>
  Go's \<open>copy(dst[lo:hi], src)\<close>: it overwrites \<open>min (hi - lo) (len src)\<close> elements of
  \<open>dst\<close> from index \<open>lo\<close> on and leaves the length of \<open>dst\<close> alone.
\<close>

definition copy_slice :: "'a list \<Rightarrow> nat \<Rightarrow> nat \<Rightarrow> 'a list \<Rightarrow> 'a list" where
  "copy_slice dst lo hi src =
     take lo dst @ take (hi - lo) src @ drop (lo + min (hi - lo) (length src)) dst"

text \<open>
  \<open>RespondWith0\<close>, statement by statement. A nil query has length 0. Every index read or
  written below is in range once the query has 14 bytes.
\<close>

definition RespondWith0 :: "byte list \<Rightarrow> byte list" where
  "RespondWith0 queryNoLength =
     (if length queryNoLength < MinNameQuerySize then []
      else
        let answerPacket = replicate (2 + 2 + length queryNoLength - 4 + length BlackHoleAnswer) 0;
            answerPacket = answerPacket[0 := queryNoLength ! 0];
            answerPacket = answerPacket[1 := queryNoLength ! 1];
            answerPacket = copy_slice answerPacket 2 4 StandardResponseNoError;
            answerPacket = copy_slice answerPacket 4 (length answerPacket) (drop 4 queryNoLength);
            answerPacket = answerPacket[6 := 0];
            answerPacket = answerPacket[7 := 1];
            answerPacket = copy_slice answerPacket (length answerPacket - length BlackHoleAnswer)
                             (length answerPacket) BlackHoleAnswer
        in answerPacket)"

text \<open>
  The layout of the resource record that \<open>BlackHoleAnswer\<close> holds, as its comment in the
  source labels it: a 2-byte name pointer, type, class, a 4-byte TTL, a 2-byte data length
  and the address. Multi-byte fields are big-endian.
\<close>

definition big_endian :: "byte list \<Rightarrow> nat" where
  "big_endian bs = foldl (\<lambda>acc b. acc * 256 + unat b) 0 bs"

definition answer_ttl :: "byte list \<Rightarrow> nat" where
  "answer_ttl rr = big_endian (take 4 (drop 6 rr))"

definition answer_address :: "byte list \<Rightarrow> byte list" where
  "answer_address rr = drop 12 rr"

text \<open>\<open>bytes.Index\<close>: the index of the first occurrence of \<open>sep\<close>, \<open>None\<close> for -1.\<close>

fun bytes_Index :: "byte list \<Rightarrow> byte list \<Rightarrow> nat option" where
  "bytes_Index [] sep = (if sep = [] then Some 0 else None)"
| "bytes_Index (b # s) sep =
     (if prefix sep (b # s) then Some 0 else map_option Suc (bytes_Index s sep))"

text \<open>\<open>strings.IndexRune\<close> for a rune below 128, which is a search for one byte.\<close>

fun IndexByte :: "byte list \<Rightarrow> byte \<Rightarrow> nat option" where
  "IndexByte [] c = None"
| "IndexByte (b # s) c = (if b = c then Some 0 else map_option Suc (IndexByte s c))"

definition full_stop :: byte where
  "full_stop = 46"

text \<open>The body of the loop that puts the full stops back into the name.\<close>

definition restore_full_stop :: "byte \<Rightarrow> byte" where
  "restore_full_stop b =
     (if b \<le> 44 \<or> (b \<ge> 58 \<and> b \<le> 64) \<or> (b \<ge> 91 \<and> b \<le> 96) then full_stop else b)"

text \<open>
  The final loop of \<open>ExtractDomainName\<close>: what it appends to \<open>ret\<close> after the full name.
  The loop ends when the name has no full stop, starts with one, or has its first one as
  its last byte.
\<close>

function leading_components_removed :: "byte list \<Rightarrow> byte list list" where
  "leading_components_removed domainName =
     (case IndexByte domainName full_stop of
        None \<Rightarrow> []
      | Some index \<Rightarrow>
          if index < 1 \<or> index = length domainName - 1 then []
          else drop (index + 1) domainName
                 # leading_components_removed (drop (index + 1) domainName))"
  by pat_completeness auto
termination
proof (relation "measure length")
  show "wf (measure length)" by simp
next
  fix domainName :: "byte list" and index :: nat
  assume "IndexByte domainName full_stop = Some index"
  then have "domainName \<noteq> []" by auto
  then show "(drop (index + 1) domainName, domainName) \<in> measure length" by simp
qed

definition ExtractDomainName :: "byte list \<Rightarrow> byte list list" where
  "ExtractDomainName packet =
     (if length packet < MinNameQuerySize then []
      else
        case bytes_Index (drop 13 packet) [0, 1, 0, 1] of
          None \<Rightarrow> []
        | Some found \<Rightarrow>
            if found < 1 then []
            else
              let indexTypeAClassIN = found + 13;
                  domainNameBytes = take (indexTypeAClassIN - 13 - 1) (drop 13 packet);
                  domainName = map restore_full_stop domainNameBytes
              in if length domainName > 1024 then []
                 else domainName # leading_components_removed domainName)"

text \<open>\<open>NamesAreBlackListed\<close>; the black list is a set of names.\<close>

fun NamesAreBlackListed :: "byte list set \<Rightarrow> byte list list \<Rightarrow> bool" where
  "NamesAreBlackListed blackList [] = False"
| "NamesAreBlackListed blackList (name # names) =
     (if name \<in> blackList then True else NamesAreBlackListed blackList names)"

text \<open>The sample query of the source's test set-up: an A query for github.com over UDP.\<close>

definition githubComUDPQuery :: "byte list" where
  "githubComUDPQuery =
     [0xe5, 0x75, 0x01, 0x20, 0x00, 0x01, 0x00, 0x00, 0x00, 0x00, 0x00, 0x01,
      0x06, 0x67, 0x69, 0x74, 0x68, 0x75, 0x62, 0x03, 0x63, 0x6f, 0x6d, 0x00,
      0x00, 0x01, 0x00, 0x01,
      0x00, 0x00, 0x29, 0x10, 0x00, 0x00, 0x00, 0x00, 0x00, 0x00, 0x00]"


section \<open>Rate limiter\<close>

text \<open>
  The struct \<open>RateLimit\<close>. The two maps are created at different places: \<open>Initialise\<close>
  makes \<open>counter\<close>, while \<open>logged\<close> stays nil until the first reset in \<open>Add\<close>, so the
  latter is optional (\<open>None\<close> is the nil map, which can be read but not written). The
  logger and the mutex are left out: calls are taken one at a time, as the mutex makes
  them, and the text of the warning is not part of the state.
\<close>

record RateLimit =
  UnitSecs :: int
  MaxCount :: int
  lastTimestamp :: int
  counter :: "string \<rightharpoonup> int"
  logged :: "string set option"

text \<open>
  Modelled from the spec: \<open>Logger.Panicf\<close>, which \<open>Initialise\<close> calls and which is
  not among the sources. By the specification a unit or a maximum below 1 fails
  initialisation (\<open>None\<close>). The rest is \<open>Initialise\<close> as the source has it: it makes
  the counter map and leaves the logged set and the time stamp alone.
\<close>

definition Initialise :: "RateLimit \<Rightarrow> RateLimit option" where
  "Initialise limit =
     (let limit = limit\<lparr>counter := Map.empty\<rparr>
      in if UnitSecs limit < 1 \<or> MaxCount limit < 1 then None else Some limit)"

text \<open>
  \<open>Add\<close>, with the reading of the clock (\<open>time.Now().Unix()\<close>) as the argument
  \<open>now\<close>. It returns the verdict and the state after the call; \<open>None\<close> is the panic of
  an assignment into the nil \<open>logged\<close> map.
\<close>

definition reset_if_due :: "int \<Rightarrow> RateLimit \<Rightarrow> RateLimit" where
  "reset_if_due now limit =
     (if now - lastTimestamp limit \<ge> UnitSecs limit
      then limit\<lparr>counter := Map.empty, logged := Some {}, lastTimestamp := now\<rparr>
      else limit)"

definition Add :: "int \<Rightarrow> string \<Rightarrow> bool \<Rightarrow> RateLimit \<Rightarrow> (bool \<times> RateLimit) option" where
  "Add now actor logIfLimitHit limit0 =
     (let limit = reset_if_due now limit0
      in case counter limit actor of
           Some count \<Rightarrow>
             if count \<ge> MaxCount limit then
               (let hasLogged = (case logged limit of None \<Rightarrow> False | Some l \<Rightarrow> actor \<in> l)
                in if \<not> hasLogged \<and> logIfLimitHit then
                     (case logged limit of
                        None \<Rightarrow> None
                      | Some l \<Rightarrow> Some (False, limit\<lparr>logged := Some (insert actor l)\<rparr>))
                   else Some (False, limit))
             else Some (True, limit\<lparr>counter := (counter limit)(actor \<mapsto> count + 1)\<rparr>)
         | None \<Rightarrow> Some (True, limit\<lparr>counter := (counter limit)(actor \<mapsto> 1)\<rparr>))"

text \<open>
  A history of calls, each with its clock reading, actor and logging flag, run one after
  the other; the verdicts come back in the order of the calls.
\<close>

type_synonym add_call = "int \<times> string \<times> bool"

fun Adds :: "RateLimit \<Rightarrow> add_call list \<Rightarrow> (bool list \<times> RateLimit) option" where
  "Adds limit [] = Some ([], limit)"
| "Adds limit ((now, actor, logIfLimitHit) # calls) =
     (case Add now actor logIfLimitHit limit of
        None \<Rightarrow> None
      | Some (admitted, limit') \<Rightarrow>
          (case Adds limit' calls of
             None \<Rightarrow> None
           | Some (verdicts, limit'') \<Rightarrow> Some (admitted # verdicts, limit'')))"

text \<open>
  The admissions of one actor among the calls whose clock reading lies in the half-open
  interval from \<open>start\<close> to \<open>start + len\<close>.
\<close>

fun admissions_within :: "string \<Rightarrow> int \<Rightarrow> int \<Rightarrow> add_call list \<Rightarrow> bool list \<Rightarrow> nat" where
  "admissions_within actor start len ((now, a, l) # calls) (admitted # verdicts) =
     (if a = actor \<and> admitted \<and> start \<le> now \<and> now < start + len then 1 else 0)
       + admissions_within actor start len calls verdicts"
| "admissions_within actor start len _ _ = 0"

text \<open>The admissions of one actor among all the calls of a history.\<close>

fun admissions :: "string \<Rightarrow> add_call list \<Rightarrow> bool list \<Rightarrow> nat" where
  "admissions actor ((now, a, l) # calls) (admitted # verdicts) =
     (if a = actor \<and> admitted then 1 else 0) + admissions actor calls verdicts"
| "admissions actor _ _ = 0"

text \<open>The counter of an actor, 0 when the map has no entry.\<close>

definition count_of :: "RateLimit \<Rightarrow> string \<Rightarrow> int" where
  "count_of limit actor = (case counter limit actor of None \<Rightarrow> 0 | Some count \<Rightarrow> count)"

text \<open>
  The behaviour the specification words for \<open>add\<close>: reset when due, then increment the
  actor's counter in every case and admit when the new value is within the maximum.
\<close>

definition Add_spec :: "int \<Rightarrow> string \<Rightarrow> RateLimit \<Rightarrow> bool \<times> RateLimit" where
  "Add_spec now actor limit0 =
     (let limit = reset_if_due now limit0;
          new = count_of limit actor + 1
      in (new \<le> MaxCount limit, limit\<lparr>counter := (counter limit)(actor \<mapsto> new)\<rparr>))"

section \<open>Commands and results (package toolbox)\<close>

text \<open>
  Errors are compared by identity in the source. The named ones are constructors;
  \<open>OtherError\<close> carries the message of any error made elsewhere (by a filter or a feature).
\<close>

datatype error =
    ErrEmergencyLockDown
  | ErrEmptyCommand
  | ErrBadPrefix
  | ErrBadPLT
  | ErrPLTNotAvailable
  | OtherError string

record Command =
  TimeoutSec :: int
  Content :: string

record Result =
  Command :: Command
  Error :: "error option"
  Output :: string
  CombinedOutput :: string

text \<open>The struct literal \<open>&toolbox.Result{Error: e}\<close>: the other fields are zero.\<close>

definition Result_with_error :: "error option \<Rightarrow> Result" where
  "Result_with_error e =
     \<lparr>Command = \<lparr>TimeoutSec = 0, Content = []\<rparr>, Error = e, Output = [],
      CombinedOutput = []\<rparr>"

text \<open>
  \<open>strings.TrimSpace\<close> on a UTF-8 byte string: it removes, from the left and then from
  the right, every rune for which \<open>unicode.IsSpace\<close> holds. These are their encodings.
\<close>

definition white_space_runes :: "string list" where
  "white_space_runes =
     [[CHR 0x09], [CHR 0x0A], [CHR 0x0B], [CHR 0x0C], [CHR 0x0D], [CHR 0x20],
      [CHR 0xC2, CHR 0x85], [CHR 0xC2, CHR 0xA0],
      [CHR 0xE1, CHR 0x9A, CHR 0x80],
      [CHR 0xE2, CHR 0x80, CHR 0x80], [CHR 0xE2, CHR 0x80, CHR 0x81],
      [CHR 0xE2, CHR 0x80, CHR 0x82], [CHR 0xE2, CHR 0x80, CHR 0x83],
      [CHR 0xE2, CHR 0x80, CHR 0x84], [CHR 0xE2, CHR 0x80, CHR 0x85],
      [CHR 0xE2, CHR 0x80, CHR 0x86], [CHR 0xE2, CHR 0x80, CHR 0x87],
      [CHR 0xE2, CHR 0x80, CHR 0x88], [CHR 0xE2, CHR 0x80, CHR 0x89],
      [CHR 0xE2, CHR 0x80, CHR 0x8A],
      [CHR 0xE2, CHR 0x80, CHR 0xA8], [CHR 0xE2, CHR 0x80, CHR 0xA9],
      [CHR 0xE2, CHR 0x80, CHR 0xAF], [CHR 0xE2, CHR 0x81, CHR 0x9F],
      [CHR 0xE3, CHR 0x80, CHR 0x80]]"

function trim_prefixes :: "string list \<Rightarrow> string \<Rightarrow> string" where
  "trim_prefixes ws s =
     (case find (\<lambda>w. w \<noteq> [] \<and> prefix w s) ws of
        None \<Rightarrow> s
      | Some w \<Rightarrow> trim_prefixes ws (drop (length w) s))"
  by pat_completeness auto
termination
proof (relation "measure (\<lambda>(ws, s). length s)")
  show "wf (measure (\<lambda>(ws, s). length s))" by simp
next
  fix ws :: "string list" and s w :: string
  assume "find (\<lambda>w. w \<noteq> [] \<and> prefix w s) ws = Some w"
  then have "w \<noteq> [] \<and> prefix w s" by (auto simp: find_Some_iff)
  then have "length (drop (length w) s) < length s" by (auto simp: prefix_def)
  then show "((ws, drop (length w) s), (ws, s)) \<in> measure (\<lambda>(ws, s). length s)" by simp
qed

definition TrimSpace :: "string \<Rightarrow> string" where
  "TrimSpace s =
     rev (trim_prefixes (map rev white_space_runes) (rev (trim_prefixes white_space_runes s)))"

text \<open>\<open>Command.Trim\<close>: the trimmed command, and the error result when nothing is left.\<close>

definition Trim :: "Command \<Rightarrow> Command \<times> Result option" where
  "Trim cmd =
     (let cmd = cmd\<lparr>Content := TrimSpace (Content cmd)\<rparr>
      in if Content cmd = []
         then (cmd, Some ((Result_with_error (Some ErrEmptyCommand))\<lparr>Output := []\<rparr>))
         else (cmd, None))"

text \<open>\<open>Command.FindAndRemovePrefix\<close>: whether the prefix was there, and the command after.\<close>

definition FindAndRemovePrefix :: "string \<Rightarrow> Command \<Rightarrow> bool \<times> Command" where
  "FindAndRemovePrefix pfx cmd =
     (let trimmedOriginal = TrimSpace (Content cmd);
          hasPrefix = prefix pfx trimmedOriginal
      in if hasPrefix
         then (hasPrefix, cmd\<lparr>Content := TrimSpace (drop (length pfx) trimmedOriginal)\<rparr>)
         else (hasPrefix, cmd))"

text \<open>
  \<open>strconv.Atoi\<close> on a 64-bit platform: the value and whether an error came with it. A
  syntax error gives 0, a range error the nearest bound.
\<close>

definition is_digit :: "char \<Rightarrow> bool" where
  "is_digit c = (c \<in> set ''0123456789'')"

definition digit_value :: "char \<Rightarrow> int" where
  "digit_value c = of_char c - 48"

datatype num_error = ErrSyntax | ErrRange

fun parse_digits :: "int \<Rightarrow> string \<Rightarrow> num_error + int" where
  "parse_digits n [] = Inr n"
| "parse_digits n (c # cs) =
     (if \<not> is_digit c then Inl ErrSyntax
      else
        let n1 = n * 10 + digit_value c
        in if n1 \<ge> 2 ^ 64 then Inl ErrRange else parse_digits n1 cs)"

definition ParseUint :: "string \<Rightarrow> num_error + int" where
  "ParseUint s = (if s = [] then Inl ErrSyntax else parse_digits 0 s)"

definition Atoi :: "string \<Rightarrow> int \<times> bool" where
  "Atoi s0 =
     (if s0 = [] then (0, True)
      else
        let neg = (hd s0 = CHR 0x2D);
            s = (if hd s0 = CHR 0x2B \<or> hd s0 = CHR 0x2D then tl s0 else s0)
        in case ParseUint s of
             Inl ErrSyntax \<Rightarrow> (0, True)
           | Inl ErrRange \<Rightarrow> (if neg then (- (2 ^ 63), True) else (2 ^ 63 - 1, True))
           | Inr un \<Rightarrow>
               if \<not> neg \<and> un \<ge> 2 ^ 63 then (2 ^ 63 - 1, True)
               else if neg \<and> un > 2 ^ 63 then (- (2 ^ 63), True)
               else (if neg then - un else un, False))"

text \<open>
  \<open>RegexCommandWithPLT.FindStringSubmatch\<close> for the expression
  \<^verbatim>\<open>[^\d]*(\d+)[^\d]+(\d+)[^\d]*(\d+)(.*)\<close>, written out as the leftmost-first match
  that Go's engine returns: the first run of digits, a separator, the second run, an
  optional separator and the third run, then the rest of the line. When the text has no
  third run, the second run gives up its last digit to the third group. The result is the
  whole match followed by the four groups, or the empty list (nil) when nothing matches.
\<close>

definition non_digit :: "char \<Rightarrow> bool" where
  "non_digit c = (\<not> is_digit c)"

definition rest_of_line :: "string \<Rightarrow> string" where
  "rest_of_line s = takeWhile (\<lambda>c. c \<noteq> CHR 0x0A) s"

definition FindStringSubmatch_PLT :: "string \<Rightarrow> string list" where
  "FindStringSubmatch_PLT s =
     (let lead = takeWhile non_digit s;
          s1 = dropWhile non_digit s;
          p = takeWhile is_digit s1;
          s2 = dropWhile is_digit s1;
          sep1 = takeWhile non_digit s2;
          s3 = dropWhile non_digit s2;
          l = takeWhile is_digit s3;
          s4 = dropWhile is_digit s3;
          sep2 = takeWhile non_digit s4;
          s5 = dropWhile non_digit s4;
          t = takeWhile is_digit s5;
          s6 = dropWhile is_digit s5
      in if p = [] \<or> sep1 = [] \<or> l = [] then []
         else if t \<noteq> [] then
           [lead @ p @ sep1 @ l @ sep2 @ t @ rest_of_line s6, p, l, t, rest_of_line s6]
         else if length l \<ge> 2 then
           [lead @ p @ sep1 @ l @ rest_of_line s4, p, butlast l, [last l], rest_of_line s4]
         else [])"

section \<open>Command processor (package common)\<close>

text \<open>
  The filter package is not among the sources. The fields of its two structs that the
  processor reads are taken from the processor's code and from the sample configuration.
  A Go map that is nil or empty has length 0 either way, so the shortcuts are a list of
  pairs. Every other filter type is a value of a type parameter.
\<close>

record PINAndShortcuts =
  PIN :: string
  Shortcuts :: "(string \<times> string) list"

record LintText =
  TrimSpaces :: bool
  CompressSpaces :: bool
  CompressToSingleLine :: bool
  KeepVisible7BitCharOnly :: bool
  MaxLength :: int
  BeginPosition :: int

datatype 'c CommandFilter =
    CF_PINAndShortcuts PINAndShortcuts
  | CF_Other 'c

datatype 'r ResultFilter =
    RF_LintText LintText
  | RF_Other 'r

text \<open>
  The \<open>Transform\<close> methods of the filters, parameters of the model. A command filter
  returns the command and an error. A result filter works on a pointer to the result and
  has a pointer receiver, so it returns the result and its own state as it leaves them,
  together with the error.
\<close>

record ('c, 'r) Transforms =
  CommandFilter_Transform :: "'c CommandFilter \<Rightarrow> Command \<Rightarrow> Command \<times> error option"
  LintText_Transform :: "LintText \<Rightarrow> Result \<Rightarrow> LintText \<times> Result \<times> error option"
  Other_Transform :: "'r \<Rightarrow> Result \<Rightarrow> 'r \<times> Result \<times> error option"

text \<open>
  A feature is its \<open>Execute\<close> method; \<open>None\<close> is a nil result pointer. The trigger map is
  listed in the order in which the \<open>range\<close> loop of the call at hand visits it.
\<close>

type_synonym Feature = "Command \<Rightarrow> Result option"

record FeatureSet =
  LookupByTrigger :: "(string \<times> Feature) list"

text \<open>
  The struct \<open>CommandProcessor\<close>. The feature set is a pointer and the filters are
  slices: each can be nil (\<open>None\<close>).
\<close>

record ('c, 'r) CommandProcessor =
  Features :: "FeatureSet option"
  CommandFilters :: "'c CommandFilter list option"
  ResultFilters :: "'r ResultFilter list option"

text \<open>Ranging over a nil slice runs no iteration.\<close>

definition slice_elems :: "'a list option \<Rightarrow> 'a list" where
  "slice_elems sl = (case sl of None \<Rightarrow> [] | Some xs \<Rightarrow> xs)"

subsection \<open>IsSaneForInternet\<close>

datatype finding =
    FeatureSetNotAssigned
  | FeatureSetNotInitialised
  | CommandFiltersNotAssigned
  | PINEmptyAndNoShortcut
  | PINTooShort
  | PINAndShortcutsNotUsed
  | ResultFiltersNotAssigned
  | MaxLengthNotInRange
  | LintTextNotUsed

text \<open>
  The loop over the command filters: the findings about the first PIN filter, and
  \<open>seenPIN\<close>.
\<close>

fun check_PIN :: "'c CommandFilter list \<Rightarrow> finding list \<times> bool" where
  "check_PIN [] = ([], False)"
| "check_PIN (CF_PINAndShortcuts pin # cmdBridges) =
     ((if PIN pin = [] \<and> length (Shortcuts pin) = 0 then [PINEmptyAndNoShortcut] else [])
        @ (if PIN pin \<noteq> [] \<and> length (PIN pin) < 7 then [PINTooShort] else []),
      True)"
| "check_PIN (CF_Other other # cmdBridges) = check_PIN cmdBridges"

text \<open>The loop over the result filters, likewise for the first linter.\<close>

fun check_linter :: "'r ResultFilter list \<Rightarrow> finding list \<times> bool" where
  "check_linter [] = ([], False)"
| "check_linter (RF_LintText linter # resultBridges) =
     ((if MaxLength linter < 35 \<or> MaxLength linter > 4096 then [MaxLengthNotInRange] else []),
      True)"
| "check_linter (RF_Other other # resultBridges) = check_linter resultBridges"

definition IsSaneForInternet :: "('c, 'r) CommandProcessor \<Rightarrow> finding list" where
  "IsSaneForInternet proc =
     (case Features proc of
        None \<Rightarrow> [FeatureSetNotAssigned]
      | Some features \<Rightarrow>
          if length (LookupByTrigger features) = 0 then [FeatureSetNotInitialised] else [])
     @ (case CommandFilters proc of
          None \<Rightarrow> [CommandFiltersNotAssigned]
        | Some cmdBridges \<Rightarrow>
            (let (errs, seenPIN) = check_PIN cmdBridges
             in errs @ (if \<not> seenPIN then [PINAndShortcutsNotUsed] else [])))
     @ (case ResultFilters proc of
          None \<Rightarrow> [ResultFiltersNotAssigned]
        | Some resultBridges \<Rightarrow>
            (let (errs, seenLinter) = check_linter resultBridges
             in errs @ (if \<not> seenLinter then [LintTextNotUsed] else [])))"

text \<open>The findings that the block about the command filters can add.\<close>

definition PIN_related :: "finding \<Rightarrow> bool" where
  "PIN_related f =
     (f = CommandFiltersNotAssigned \<or> f = PINEmptyAndNoShortcut \<or> f = PINTooShort
      \<or> f = PINAndShortcutsNotUsed)"

text \<open>The first PIN filter of a configuration, if it has one.\<close>

fun first_PIN :: "'c CommandFilter list \<Rightarrow> PINAndShortcuts option" where
  "first_PIN [] = None"
| "first_PIN (CF_PINAndShortcuts pin # cmdBridges) = Some pin"
| "first_PIN (CF_Other other # cmdBridges) = first_PIN cmdBridges"

subsection \<open>Process\<close>

definition PrefixCommandPLT :: string where
  "PrefixCommandPLT = ''.plt''"

text \<open>The loop over the command filters: the command and \<open>bridgeErr\<close> as it leaves them.\<close>

fun walk_command_filters ::
  "('c, 'r) Transforms \<Rightarrow> 'c CommandFilter list \<Rightarrow> Command \<Rightarrow> Command \<times> error option" where
  "walk_command_filters tr [] cmd = (cmd, None)"
| "walk_command_filters tr (cmdBridge # cmdBridges) cmd =
     (let (cmd, bridgeErr) = CommandFilter_Transform tr cmdBridge cmd
      in if bridgeErr \<noteq> None then (cmd, bridgeErr)
         else walk_command_filters tr cmdBridges cmd)"

text \<open>The search for the configured linter, of which the override is a copy.\<close>

fun find_LintText :: "'r ResultFilter list \<Rightarrow> LintText option" where
  "find_LintText [] = None"
| "find_LintText (RF_LintText aBridge # resultBridges) = Some aBridge"
| "find_LintText (RF_Other other # resultBridges) = find_LintText resultBridges"

text \<open>The loop over the triggers: the command and the matched feature, if any.\<close>

fun match_feature :: "(string \<times> Feature) list \<Rightarrow> Command \<Rightarrow> Command \<times> Feature option" where
  "match_feature [] cmd = (cmd, None)"
| "match_feature ((pfx, configuredFeature) # triggers) cmd =
     (let (hasPrefix, cmd') = FindAndRemovePrefix pfx cmd
      in if hasPrefix then (cmd', Some configuredFeature) else match_feature triggers cmd)"

text \<open>
  The local variables of \<open>Process\<close> at the label \<open>result\<close>. The override and its flag
  \<open>hasOverrideLintText\<close> are one optional value.
\<close>

record Locals =
  l_ret :: Result
  l_cmd :: Command
  l_logCommandContent :: string
  l_bridgeErr :: "error option"
  l_overrideLintText :: "LintText option"

definition at_result ::
  "error option \<Rightarrow> Command \<Rightarrow> string \<Rightarrow> LintText option \<Rightarrow> Locals" where
  "at_result e cmd logCommandContent override =
     \<lparr>l_ret = Result_with_error e, l_cmd = cmd, l_logCommandContent = logCommandContent,
      l_bridgeErr = None, l_overrideLintText = override\<rparr>"

text \<open>
  From the trigger loop to the label: \<open>None\<close> is a panic, on a nil feature set or on a
  nil result of the feature.
\<close>

definition run_feature ::
  "('c, 'r) CommandProcessor \<Rightarrow> Command \<Rightarrow> string \<Rightarrow> LintText option \<Rightarrow> Locals option" where
  "run_feature proc cmd logCommandContent override =
     (case Features proc of
        None \<Rightarrow> None
      | Some features \<Rightarrow>
          (case match_feature (LookupByTrigger features) cmd of
             (cmd, None) \<Rightarrow> Some (at_result (Some ErrBadPrefix) cmd logCommandContent override)
           | (cmd, Some matchedFeature) \<Rightarrow>
               (case matchedFeature cmd of
                  None \<Rightarrow> None
                | Some ret \<Rightarrow>
                    Some \<lparr>l_ret = ret, l_cmd = cmd, l_logCommandContent = logCommandContent,
                          l_bridgeErr = None, l_overrideLintText = override\<rparr>)))"

text \<open>The block that handles the PLT prefix once it has been found and removed.\<close>

definition parse_PLT ::
  "('c, 'r) CommandProcessor \<Rightarrow> Command \<Rightarrow> string \<Rightarrow> Locals option" where
  "parse_PLT proc cmd logCommandContent =
     (case find_LintText (slice_elems (ResultFilters proc)) of
        None \<Rightarrow> Some (at_result (Some ErrPLTNotAvailable) cmd logCommandContent None)
      | Some overrideLintText \<Rightarrow>
          (let pltParams = FindStringSubmatch_PLT (Content cmd)
           in if length pltParams \<noteq> 5
              then Some (at_result (Some ErrBadPLT) cmd logCommandContent (Some overrideLintText))
              else
                let (n, intErr) = Atoi (pltParams ! 1);
                    overrideLintText = overrideLintText\<lparr>BeginPosition := n\<rparr>
                in if intErr
                   then Some (at_result (Some ErrBadPLT) cmd logCommandContent
                                (Some overrideLintText))
                   else
                     let (n, intErr) = Atoi (pltParams ! 2);
                         overrideLintText = overrideLintText\<lparr>MaxLength := n\<rparr>
                     in if intErr
                        then Some (at_result (Some ErrBadPLT) cmd logCommandContent
                                     (Some overrideLintText))
                        else
                          let (n, intErr) = Atoi (pltParams ! 3);
                              cmd = cmd\<lparr>TimeoutSec := n\<rparr>
                          in if intErr
                             then Some (at_result (Some ErrBadPLT) cmd logCommandContent
                                          (Some overrideLintText))
                             else
                               let cmd = cmd\<lparr>Content := pltParams ! 4\<rparr>
                               in if Content cmd = []
                                  then Some (at_result (Some ErrBadPLT) cmd logCommandContent
                                               (Some overrideLintText))
                                  else run_feature proc cmd logCommandContent
                                         (Some overrideLintText)))"

text \<open>\<open>Process\<close> from the declaration of its variables to the label \<open>result\<close>.\<close>

definition until_result ::
  "('c, 'r) Transforms \<Rightarrow> ('c, 'r) CommandProcessor \<Rightarrow> Command \<Rightarrow> Locals option" where
  "until_result tr proc cmd0 =
     (let logCommandContent = Content cmd0;
          (cmd, bridgeErr) = walk_command_filters tr (slice_elems (CommandFilters proc)) cmd0
      in if bridgeErr \<noteq> None
         then Some \<lparr>l_ret = Result_with_error bridgeErr, l_cmd = cmd,
                    l_logCommandContent = logCommandContent, l_bridgeErr = bridgeErr,
                    l_overrideLintText = None\<rparr>
         else
           case Trim cmd of
             (cmd, Some ret) \<Rightarrow>
               Some \<lparr>l_ret = ret, l_cmd = cmd, l_logCommandContent = logCommandContent,
                     l_bridgeErr = None, l_overrideLintText = None\<rparr>
           | (cmd, None) \<Rightarrow>
               (let logCommandContent = Content cmd;
                    (hasPLT, cmd) = FindAndRemovePrefix PrefixCommandPLT cmd
                in if hasPLT then parse_PLT proc cmd logCommandContent
                   else run_feature proc cmd logCommandContent None))"

text \<open>
  The loop over the result filters. It returns the installed filters as the loop leaves
  them and the result of \<open>Process\<close>. When the override is there, a linter in the list is
  replaced, for the call of \<open>Transform\<close>, by the address of the local override, which
  therefore is the receiver and keeps what the call does to it.
\<close>

fun walk_result_filters ::
  "('c, 'r) Transforms \<Rightarrow> error option \<Rightarrow> LintText option \<Rightarrow> 'r ResultFilter list \<Rightarrow> Result
     \<Rightarrow> 'r ResultFilter list \<times> Result" where
  "walk_result_filters tr bridgeErr override [] ret = ([], ret)"
| "walk_result_filters tr bridgeErr override (RF_Other other # resultBridges) ret =
     (let (other', ret', err) = Other_Transform tr other ret
      in if err \<noteq> None
         then (RF_Other other' # resultBridges,
               \<lparr>Command = Command ret', Error = bridgeErr, Output = [], CombinedOutput = []\<rparr>)
         else
           let (resultBridges', final) = walk_result_filters tr bridgeErr override resultBridges ret'
           in (RF_Other other' # resultBridges', final))"
| "walk_result_filters tr bridgeErr None (RF_LintText linter # resultBridges) ret =
     (let (linter', ret', err) = LintText_Transform tr linter ret
      in if err \<noteq> None
         then (RF_LintText linter' # resultBridges,
               \<lparr>Command = Command ret', Error = bridgeErr, Output = [], CombinedOutput = []\<rparr>)
         else
           let (resultBridges', final) = walk_result_filters tr bridgeErr None resultBridges ret'
           in (RF_LintText linter' # resultBridges', final))"
| "walk_result_filters tr bridgeErr (Some overrideLintText) (RF_LintText linter # resultBridges) ret =
     (let (overrideLintText', ret', err) = LintText_Transform tr overrideLintText ret
      in if err \<noteq> None
         then (RF_LintText linter # resultBridges,
               \<lparr>Command = Command ret', Error = bridgeErr, Output = [], CombinedOutput = []\<rparr>)
         else
           let (resultBridges', final) =
                 walk_result_filters tr bridgeErr (Some overrideLintText') resultBridges ret'
           in (RF_LintText linter # resultBridges', final))"

text \<open>The two assignments at the label \<open>result\<close>, which put the command into the result.\<close>

definition labelled_result :: "Locals \<Rightarrow> Result" where
  "labelled_result locals =
     (let ret = (l_ret locals)\<lparr>Command := l_cmd locals\<rparr>
      in ret\<lparr>Command := (Command ret)\<lparr>Content := l_logCommandContent locals\<rparr>\<rparr>)"

text \<open>\<open>Process\<close> from the label \<open>result\<close> to its end.\<close>

definition from_result ::
  "('c, 'r) Transforms \<Rightarrow> ('c, 'r) CommandProcessor \<Rightarrow> Locals
     \<Rightarrow> Result \<times> ('c, 'r) CommandProcessor" where
  "from_result tr proc locals =
     (let ret = labelled_result locals
      in case ResultFilters proc of
           None \<Rightarrow> (ret, proc)
         | Some resultBridges \<Rightarrow>
             (let (resultBridges', final) =
                    walk_result_filters tr (l_bridgeErr locals) (l_overrideLintText locals)
                      resultBridges ret
              in (final, proc\<lparr>ResultFilters := Some resultBridges'\<rparr>)))"

text \<open>
  \<open>Process\<close>, with the global \<open>misc.EmergencyLockDown\<close> as an argument. It returns the
  result and the processor after the call; \<open>None\<close> is a panic. The statistics and the
  log lines are left out.
\<close>

definition Process ::
  "('c, 'r) Transforms \<Rightarrow> bool \<Rightarrow> ('c, 'r) CommandProcessor \<Rightarrow> Command
     \<Rightarrow> (Result \<times> ('c, 'r) CommandProcessor) option" where
  "Process tr EmergencyLockDown proc cmd =
     (if EmergencyLockDown then Some (Result_with_error (Some ErrEmergencyLockDown), proc)
      else
        case until_result tr proc cmd of
          None \<Rightarrow> None
        | Some locals \<Rightarrow> Some (from_result tr proc locals))"

text \<open>
  The specification's version of the error path of the result filters: the result carries
  the error of the filter that failed.
\<close>

fun first_result_filter_error ::
  "('c, 'r) Transforms \<Rightarrow> LintText option \<Rightarrow> 'r ResultFilter list \<Rightarrow> Result \<Rightarrow> error option" where
  "first_result_filter_error tr override [] ret = None"
| "first_result_filter_error tr override (RF_Other other # resultBridges) ret =
     (let (other', ret', err) = Other_Transform tr other ret
      in if err \<noteq> None then err
         else first_result_filter_error tr override resultBridges ret')"
| "first_result_filter_error tr None (RF_LintText linter # resultBridges) ret =
     (let (linter', ret', err) = LintText_Transform tr linter ret
      in if err \<noteq> None then err
         else first_result_filter_error tr None resultBridges ret')"
| "first_result_filter_error tr (Some overrideLintText) (RF_LintText linter # resultBridges) ret =
     (let (overrideLintText', ret', err) = LintText_Transform tr overrideLintText ret
      in if err \<noteq> None then err
         else first_result_filter_error tr (Some overrideLintText') resultBridges ret')"

section \<open>Encrypted UDP relay (package sockd)\<close>

text \<open>
  One turn of the receive loop of \<open>StartAndBlockUDP\<close>, as a function of what the socket
  delivers. The cipher is not among the sources: the length of its initialisation vector
  and its decryption (of a payload, under a vector) are parameters. So is the handler that
  the loop starts for an admitted packet, which owns every reply: the loop receives what
  the handler does as a list of effects.
\<close>

definition MaxPacketSize :: nat where
  "MaxPacketSize = 9038"

definition ErrMalformedUDPPacket :: string where
  "ErrMalformedUDPPacket = ''received packet is abnormally small''"

record UDPAddr =
  IP :: string
  Port :: nat

text \<open>
  What \<open>PacketConn.ReadFrom\<close> hands back: an error with its message, or the bytes of a
  datagram (their number is \<open>n\<close>) and where it came from.
\<close>

datatype net_read =
    ReadFailed string
  | Datagram "byte list" UDPAddr

text \<open>
  What a turn of the loop does to the outside: a warning in the log, or a datagram
  written to an address. \<open>WriteRand\<close> is such a write, of the random bytes it drew.
\<close>

datatype udp_effect =
    Warningf string string
  | WriteTo "byte list" UDPAddr

text \<open>\<open>strings.Contains\<close>.\<close>

definition Contains :: "string \<Rightarrow> string \<Rightarrow> bool" where
  "Contains s substr = sublist substr s"

text \<open>
  \<open>UDPCipherConnection.ReadFrom\<close>: the error, or the length, the source and the buffer
  \<open>b\<close> with the plain text copied to its front.
\<close>

definition ReadFrom ::
  "nat \<Rightarrow> (byte list \<Rightarrow> byte list \<Rightarrow> byte list) \<Rightarrow> byte list \<Rightarrow> net_read
     \<Rightarrow> string + (nat \<times> UDPAddr \<times> byte list)" where
  "ReadFrom IVLength Decrypt b delivered =
     (case delivered of
        ReadFailed err \<Rightarrow> Inl err
      | Datagram buf src \<Rightarrow>
          (let n = length buf
           in if n < IVLength then Inl ErrMalformedUDPPacket
              else
                let iv = take IVLength buf;
                    b = copy_slice b 0 (length b) (Decrypt iv (drop IVLength buf))
                in Inr (n - IVLength, src, b)))"

text \<open>
  \<open>UDPCipherConnection.WriteRand\<close>, given the random bytes drawn (\<open>None\<close> when the random
  source fails) and the encryption of a payload into a datagram.
\<close>

definition WriteRand ::
  "(byte list \<Rightarrow> byte list) \<Rightarrow> byte list option \<Rightarrow> UDPAddr \<Rightarrow> udp_effect list" where
  "WriteRand Encrypt drawn dest =
     (case drawn of
        None \<Rightarrow> [Warningf ''WriteRand'' ''failed to get random bytes'']
      | Some randBuf \<Rightarrow> [WriteTo (Encrypt randBuf) dest])"

datatype loop_step =
    Return "error option"
  | Continue

text \<open>
  One turn of the loop: whether it goes on, what it did, and the rate limiter after.
  \<open>None\<close> is a panic inside the rate limiter.
\<close>

definition StartAndBlockUDP_turn ::
  "nat \<Rightarrow> (byte list \<Rightarrow> byte list \<Rightarrow> byte list)
     \<Rightarrow> (nat \<Rightarrow> UDPAddr \<Rightarrow> byte list \<Rightarrow> udp_effect list)
     \<Rightarrow> bool \<Rightarrow> int \<Rightarrow> RateLimit \<Rightarrow> net_read
     \<Rightarrow> (loop_step \<times> udp_effect list \<times> RateLimit) option" where
  "StartAndBlockUDP_turn IVLength Decrypt HandleUDPConnection EmergencyLockDown now rateLimitUDP
       delivered =
     (if EmergencyLockDown then Some (Return (Some ErrEmergencyLockDown), [], rateLimitUDP)
      else
        let packetBuf = replicate MaxPacketSize 0
        in case ReadFrom IVLength Decrypt packetBuf delivered of
             Inl err \<Rightarrow>
               if Contains err ''closed'' then Some (Return None, [], rateLimitUDP)
               else Some (Continue, [Warningf ''StartAndBlockUDP'' ''failed to read packet''],
                          rateLimitUDP)
           | Inr (packetLength, udpClientAddr, packetBuf) \<Rightarrow>
               (case Add now (IP udpClientAddr) True rateLimitUDP of
                  None \<Rightarrow> None
                | Some (admitted, rateLimitUDP) \<Rightarrow>
                    Some (Continue,
                          (if admitted
                           then HandleUDPConnection packetLength udpClientAddr packetBuf
                           else []),
                          rateLimitUDP)))"

text \<open>Whether a list of effects holds a datagram written to a given address.\<close>

definition replies_to :: "UDPAddr \<Rightarrow> udp_effect list \<Rightarrow> bool" where
  "replies_to dest effects = list_ex (\<lambda>e. case e of WriteTo b d \<Rightarrow> d = dest | _ \<Rightarrow> False) effects"

section \<open>The specification's wording of the name extraction\<close>





section \<open>The specification's wording of the PIN check\<close>

text \<open>
  ``A PIN filter must be present with a PIN of at least 7 characters or at least one
  shortcut defined'', for the first PIN filter of the configuration.
\<close>

definition PIN_check_as_specified :: "('c, 'r) CommandProcessor \<Rightarrow> bool" where
  "PIN_check_as_specified proc =
     (case first_PIN (slice_elems (CommandFilters proc)) of
        None \<Rightarrow> False
      | Some pin \<Rightarrow> length (PIN pin) \<ge> 7 \<or> Shortcuts pin \<noteq> [])"

text \<open>
  A configuration with the short PIN of \<open>GetInsaneCommandProcessor\<close> and the shortcuts of
  the sample configuration; the rest is as in \<open>GetTestCommandProcessor\<close>, with one
  feature behind the trigger \<open>.s\<close>.
\<close>

definition echo_feature :: Feature where
  "echo_feature cmd =
     Some \<lparr>Command = \<lparr>TimeoutSec = 0, Content = []\<rparr>, Error = None, Output = Content cmd,
           CombinedOutput = []\<rparr>"

definition short_PIN_with_shortcuts :: "(unit, unit) CommandProcessor" where
  "short_PIN_with_shortcuts =
     \<lparr>Features = Some \<lparr>LookupByTrigger = [(''.s'', echo_feature)]\<rparr>,
      CommandFilters =
        Some [CF_PINAndShortcuts
                \<lparr>PIN = ''short'',
                 Shortcuts = [(''info'', ''.einfo''), (''lock'', ''.elock''), (''stop'', ''.estop'')]\<rparr>],
      ResultFilters =
        Some [RF_Other (),
              RF_LintText \<lparr>TrimSpaces = True, CompressSpaces = False, CompressToSingleLine = False,
                           KeepVisible7BitCharOnly = False, MaxLength = 35, BeginPosition = 0\<rparr>]\<rparr>"

section \<open>A sample processor and sample filters\<close>

text \<open>
  The position of a linter in the list of result filters, for comparing the installed
  linters before and after a call.
\<close>

fun linter_at :: "'r ResultFilter \<Rightarrow> LintText option" where
  "linter_at (RF_LintText linter) = Some linter"
| "linter_at (RF_Other other) = None"

text \<open>
  A processor in the manner of \<open>GetTestCommandProcessor\<close>: one feature behind the
  trigger \<open>.s\<close>, a sequence translator without sequences as its command filter, and
  the linter of the test set-up followed by the mail notifier as its result filters.
  Filters other than the two structs above are named by a string.
\<close>

definition test_linter :: LintText where
  "test_linter =
     \<lparr>TrimSpaces = True, CompressSpaces = False, CompressToSingleLine = False,
      KeepVisible7BitCharOnly = False, MaxLength = 35, BeginPosition = 0\<rparr>"

definition test_processor :: "(string, string) CommandProcessor" where
  "test_processor =
     \<lparr>Features = Some \<lparr>LookupByTrigger = [(''.s'', echo_feature)]\<rparr>,
      CommandFilters = Some [CF_Other ''TranslateSequences''],
      ResultFilters = Some [RF_LintText test_linter, RF_Other ''NotifyViaEmail'']\<rparr>"

text \<open>
  Filters for it. The command filter lets every command through unchanged. The linter
  cuts the output to the window that its position and length give, and records in its own
  position where it stopped, so that a call leaves a trace in its receiver. The notifier
  fails when told so: its mail cannot be sent.
\<close>

definition slicing_linter :: "LintText \<Rightarrow> Result \<Rightarrow> LintText \<times> Result \<times> error option" where
  "slicing_linter linter ret =
     (linter\<lparr>BeginPosition := BeginPosition linter + MaxLength linter\<rparr>,
      ret\<lparr>CombinedOutput :=
            take (nat (MaxLength linter)) (drop (nat (BeginPosition linter)) (Output ret))\<rparr>,
      None)"

definition sample_transforms :: "bool \<Rightarrow> (string, string) Transforms" where
  "sample_transforms mail_fails =
     \<lparr>CommandFilter_Transform = (\<lambda>cmdBridge cmd. (cmd, None)),
      LintText_Transform = slicing_linter,
      Other_Transform =
        (\<lambda>other ret. (other, ret,
                       if mail_fails then Some (OtherError ''mail not sent'') else None))\<rparr>"

section \<open>Sample rate limiters\<close>

text \<open>
  A limiter as the daemons configure it, before \<open>Initialise\<close>: the zero value of the
  struct with the unit and the maximum set.
\<close>

definition new_RateLimit :: "int \<Rightarrow> int \<Rightarrow> RateLimit" where
  "new_RateLimit unit maxCount =
     \<lparr>UnitSecs = unit, MaxCount = maxCount, lastTimestamp = 0, counter = Map.empty,
      logged = None\<rparr>"

text \<open>
  Five calls of one actor in 12 seconds: two at the end of one window, refused a third
  time, and two more at the start of the next window.
\<close>

definition burst :: "add_call list" where
  "burst =
     [(100, ''a'', True), (108, ''a'', True), (109, ''a'', True), (110, ''a'', True),
      (111, ''a'', True)]"

text \<open>What a run of calls shows of itself: the verdicts and the final counter of an actor.\<close>

definition verdicts_and_count ::
  "string \<Rightarrow> (bool list \<times> RateLimit) option \<Rightarrow> (bool list \<times> int option) option" where
  "verdicts_and_count actor run = map_option (\<lambda>(verdicts, limit). (verdicts, counter limit actor)) run"

text \<open>The same run under the specification's wording of \<open>add\<close>.\<close>

fun Adds_spec :: "RateLimit \<Rightarrow> add_call list \<Rightarrow> bool list \<times> RateLimit" where
  "Adds_spec limit [] = ([], limit)"
| "Adds_spec limit ((now, actor, logIfLimitHit) # calls) =
     (let (admitted, limit') = Add_spec now actor limit;
          (verdicts, limit'') = Adds_spec limit' calls
      in (admitted # verdicts, limit''))"

section \<open>A sample relay\<close>

text \<open>
  A client, a cipher with a vector of 16 bytes that leaves the payload as it is, and a
  handler that answers whatever it is given with a decoy of four bytes: with it, every
  packet that reaches the handler is replied to.
\<close>

definition sample_client :: UDPAddr where
  "sample_client = \<lparr>IP = ''192.0.2.1'', Port = 4000\<rparr>"

definition plain_cipher :: "byte list \<Rightarrow> byte list \<Rightarrow> byte list" where
  "plain_cipher iv payload = payload"

definition decoy_handler :: "nat \<Rightarrow> UDPAddr \<Rightarrow> byte list \<Rightarrow> udp_effect list" where
  "decoy_handler n clientAddr packet = WriteRand (\<lambda>randBuf. randBuf) (Some [1, 2, 3, 4]) clientAddr"

text \<open>What a turn of the loop shows of itself: whether it goes on, and what it did.\<close>

definition step_and_effects ::
  "(loop_step \<times> udp_effect list \<times> RateLimit) option \<Rightarrow> (loop_step \<times> udp_effect list) option" where
  "step_and_effects turn = map_option (\<lambda>(step, effects, limit). (step, effects)) turn"


section \<open>Properties of the DNS daemon\<close>

subsection \<open>The black-hole reply\<close>

lemma length_copy_slice:
  "lo \<le> hi \<Longrightarrow> hi \<le> length dst \<Longrightarrow> length (copy_slice dst lo hi src) = length dst"
  by (auto simp: copy_slice_def min_def)

lemma nth_copy_slice:
  assumes "lo \<le> hi" "hi \<le> length dst" "i < length dst"
  shows "copy_slice dst lo hi src ! i =
          (if lo \<le> i \<and> i < lo + min (hi - lo) (length src) then src ! (i - lo) else dst ! i)"
  using assms by (auto simp: copy_slice_def nth_append min_def)

lemma RespondWith0_length:
  "MinNameQuerySize \<le> length q \<Longrightarrow> length (RespondWith0 q) = length q + 16"
  by (simp add: RespondWith0_def Let_def length_copy_slice BlackHoleAnswer_def MinNameQuerySize_def)

lemma RespondWith0_nth:
  assumes "MinNameQuerySize \<le> length q" "i < length q + 16"
  shows "RespondWith0 q ! i =
     (if i = 0 then q ! 0 else if i = 1 then q ! 1 else if i = 2 then 129 else if i = 3 then 128
      else if i = 6 then 0 else if i = 7 then 1
      else if i < length q then q ! i else BlackHoleAnswer ! (i - length q))"
  using assms
  by (simp add: RespondWith0_def Let_def length_copy_slice nth_copy_slice nth_list_update
        StandardResponseNoError_def MinNameQuerySize_def BlackHoleAnswer_def)

lemma RespondWith0_tail:
  assumes "MinNameQuerySize \<le> length q"
  shows "drop (length q) (RespondWith0 q) = BlackHoleAnswer"
proof (rule nth_equalityI)
  show "length (drop (length q) (RespondWith0 q)) = length BlackHoleAnswer"
    using assms by (simp add: RespondWith0_length BlackHoleAnswer_def)
next
  fix i assume "i < length (drop (length q) (RespondWith0 q))"
  then have i: "i < 16" using assms by (simp add: RespondWith0_length)
  have "drop (length q) (RespondWith0 q) ! i = RespondWith0 q ! (length q + i)"
    using assms i by (simp add: RespondWith0_length)
  also have "\<dots> = BlackHoleAnswer ! i"
    using assms i by (auto simp: RespondWith0_nth MinNameQuerySize_def)
  finally show "drop (length q) (RespondWith0 q) ! i = BlackHoleAnswer ! i" .
qed

text \<open>
  C5. For every query \<open>Q\<close> of at least 14 bytes (black-listed or not, so in particular
  for the black-listed ones that the daemon answers itself), the reply \<open>RespondWith0 Q\<close>
  keeps the transaction ID in bytes 0 and 1, has the flags 0x81 0x80 in bytes 2 and 3,
  copies the bytes of \<open>Q\<close> from offset 4 on except for the answer count in bytes 6 and
  7, which is forced to 1 (byte 6 is 0, byte 7 is 1), and ends with the 16 bytes of
  \<open>BlackHoleAnswer\<close>, whose address is 0.0.0.0 and whose TTL is 1466.
\<close>

theorem RespondWith0_black_hole_reply:
  assumes "MinNameQuerySize \<le> length Q"
  shows "RespondWith0 Q ! 0 = Q ! 0 \<and> RespondWith0 Q ! 1 = Q ! 1
       \<and> RespondWith0 Q ! 2 = 0x81 \<and> RespondWith0 Q ! 3 = 0x80
       \<and> (\<forall>i. 4 \<le> i \<and> i < length Q \<and> i \<noteq> 6 \<and> i \<noteq> 7 \<longrightarrow> RespondWith0 Q ! i = Q ! i)
       \<and> RespondWith0 Q ! 6 = 0 \<and> RespondWith0 Q ! 7 = 1
       \<and> length (RespondWith0 Q) = length Q + 16
       \<and> drop (length Q) (RespondWith0 Q) = BlackHoleAnswer
       \<and> length BlackHoleAnswer = 16
       \<and> answer_address BlackHoleAnswer = [0, 0, 0, 0]
       \<and> answer_ttl BlackHoleAnswer = 1466"
proof -
  have len: "14 \<le> length Q" using assms by (simp add: MinNameQuerySize_def)
  have head: "RespondWith0 Q ! 0 = Q ! 0" "RespondWith0 Q ! 1 = Q ! 1"
    "RespondWith0 Q ! 2 = 0x81" "RespondWith0 Q ! 3 = 0x80"
    "RespondWith0 Q ! 6 = 0" "RespondWith0 Q ! 7 = 1"
    using assms len by (simp_all add: RespondWith0_nth)
  have body: "\<forall>i. 4 \<le> i \<and> i < length Q \<and> i \<noteq> 6 \<and> i \<noteq> 7 \<longrightarrow> RespondWith0 Q ! i = Q ! i"
    using assms by (simp add: RespondWith0_nth)
  have rr: "length BlackHoleAnswer = 16" "answer_address BlackHoleAnswer = [0, 0, 0, 0]"
    "answer_ttl BlackHoleAnswer = 1466"
    by (simp_all add: BlackHoleAnswer_def answer_address_def answer_ttl_def big_endian_def)
  show ?thesis
    using head body rr RespondWith0_length [OF assms] RespondWith0_tail [OF assms] by simp
qed

lemma githubComUDPQuery_names:
  "ExtractDomainName githubComUDPQuery = [bytes_of ''github.com'', bytes_of ''com'']"
  by code_simp

theorem RespondWith0_black_hole_reply_witness:
  "MinNameQuerySize \<le> length githubComUDPQuery
   \<and> NamesAreBlackListed {bytes_of ''com''} (ExtractDomainName githubComUDPQuery)
   \<and> take 4 (RespondWith0 githubComUDPQuery) = [0xe5, 0x75, 0x81, 0x80]
   \<and> RespondWith0 githubComUDPQuery ! 7 = 1
   \<and> length (RespondWith0 githubComUDPQuery) = 55
   \<and> drop 39 (RespondWith0 githubComUDPQuery) = BlackHoleAnswer"
proof -
  have h: "MinNameQuerySize \<le> length githubComUDPQuery"
    by (simp add: MinNameQuerySize_def githubComUDPQuery_def)
  have len: "length githubComUDPQuery = 39" by (simp add: githubComUDPQuery_def)
  have listed: "NamesAreBlackListed {bytes_of ''com''} (ExtractDomainName githubComUDPQuery)"
    by (simp add: githubComUDPQuery_names)
  have t: "take 4 (RespondWith0 githubComUDPQuery)
            = [RespondWith0 githubComUDPQuery ! 0, RespondWith0 githubComUDPQuery ! 1,
               RespondWith0 githubComUDPQuery ! 2, RespondWith0 githubComUDPQuery ! 3]"
    using RespondWith0_black_hole_reply [OF h] len
    by (simp add: take_Suc_conv_app_nth numeral_eq_Suc)
  have q: "githubComUDPQuery ! 0 = 0xe5" "githubComUDPQuery ! 1 = 0x75"
    by (simp_all add: githubComUDPQuery_def)
  show ?thesis
    using RespondWith0_black_hole_reply [OF h] h len t q listed by simp
qed

subsection \<open>The names extracted from a query\<close>


















section \<open>Properties of the command processor\<close>

subsection \<open>The findings about the PIN\<close>

lemma check_PIN_first:
  "check_PIN cmdBridges =
     (case first_PIN cmdBridges of
        None \<Rightarrow> ([], False)
      | Some pin \<Rightarrow>
          ((if PIN pin = [] \<and> Shortcuts pin = [] then [PINEmptyAndNoShortcut] else [])
             @ (if PIN pin \<noteq> [] \<and> length (PIN pin) < 7 then [PINTooShort] else []),
           True))"
  by (induction cmdBridges rule: check_PIN.induct) simp_all

lemma check_linter_not_PIN_related:
  "\<not> list_ex PIN_related (fst (check_linter resultBridges))"
  by (induction resultBridges rule: check_linter.induct) (simp_all add: PIN_related_def)

lemma PIN_related_findings:
  "list_ex PIN_related (IsSaneForInternet proc) \<longleftrightarrow>
     (case CommandFilters proc of
        None \<Rightarrow> True
      | Some cmdBridges \<Rightarrow>
          (case first_PIN cmdBridges of
             None \<Rightarrow> True
           | Some pin \<Rightarrow>
               (PIN pin = [] \<and> Shortcuts pin = []) \<or> (PIN pin \<noteq> [] \<and> length (PIN pin) < 7)))"
proof -
  have features: "\<not> list_ex PIN_related
      (case Features proc of
         None \<Rightarrow> [FeatureSetNotAssigned]
       | Some features \<Rightarrow>
           if length (LookupByTrigger features) = 0 then [FeatureSetNotInitialised] else [])"
    by (simp add: PIN_related_def split: option.split)
  have results: "\<not> list_ex PIN_related
      (case ResultFilters proc of
         None \<Rightarrow> [ResultFiltersNotAssigned]
       | Some resultBridges \<Rightarrow>
           (let (errs, seenLinter) = check_linter resultBridges
            in errs @ (if \<not> seenLinter then [LintTextNotUsed] else [])))"
  proof (cases "ResultFilters proc")
    case None
    then show ?thesis by (simp add: PIN_related_def)
  next
    case (Some resultBridges)
    obtain errs seenLinter where c: "check_linter resultBridges = (errs, seenLinter)"
      by (cases "check_linter resultBridges")
    with check_linter_not_PIN_related [of resultBridges]
    have "\<not> list_ex PIN_related errs" by simp
    with Some c show ?thesis by (simp add: PIN_related_def)
  qed
  have commands: "list_ex PIN_related
      (case CommandFilters proc of
         None \<Rightarrow> [CommandFiltersNotAssigned]
       | Some cmdBridges \<Rightarrow>
           (let (errs, seenPIN) = check_PIN cmdBridges
            in errs @ (if \<not> seenPIN then [PINAndShortcutsNotUsed] else [])))
     \<longleftrightarrow>
     (case CommandFilters proc of
        None \<Rightarrow> True
      | Some cmdBridges \<Rightarrow>
          (case first_PIN cmdBridges of
             None \<Rightarrow> True
           | Some pin \<Rightarrow>
               (PIN pin = [] \<and> Shortcuts pin = []) \<or> (PIN pin \<noteq> [] \<and> length (PIN pin) < 7)))"
    by (simp add: check_PIN_first PIN_related_def split: option.split)
  show ?thesis
    unfolding IsSaneForInternet_def list_ex_append
    using features results commands by blast
qed

text \<open>
  C4, as the code has it. \<open>IsSaneForInternet\<close> reports no finding about the PIN exactly
  when the command filters are assigned, a PIN filter is among them, and the first one
  has a PIN of at least 7 bytes, or an empty PIN and at least one shortcut. A PIN that is
  not empty and shorter than 7 bytes is always reported as too short, with or without
  shortcuts.
\<close>

theorem IsSaneForInternet_PIN_findings:
  "(\<not> list_ex PIN_related (IsSaneForInternet proc) \<longleftrightarrow>
      (\<exists>cmdBridges pin. CommandFilters proc = Some cmdBridges \<and> first_PIN cmdBridges = Some pin
         \<and> (length (PIN pin) \<ge> 7 \<or> (PIN pin = [] \<and> Shortcuts pin \<noteq> []))))
   \<and> (\<forall>cmdBridges pin. CommandFilters proc = Some cmdBridges \<and> first_PIN cmdBridges = Some pin
         \<and> PIN pin \<noteq> [] \<and> length (PIN pin) < 7 \<longrightarrow>
         PINTooShort \<in> set (IsSaneForInternet proc))"
proof -
  have "\<not> list_ex PIN_related (IsSaneForInternet proc) \<longleftrightarrow>
      (\<exists>cmdBridges pin. CommandFilters proc = Some cmdBridges \<and> first_PIN cmdBridges = Some pin
         \<and> (length (PIN pin) \<ge> 7 \<or> (PIN pin = [] \<and> Shortcuts pin \<noteq> [])))"
    unfolding PIN_related_findings
    by (auto split: option.split)
  moreover have "PINTooShort \<in> set (IsSaneForInternet proc)"
    if "CommandFilters proc = Some cmdBridges" "first_PIN cmdBridges = Some pin"
      "PIN pin \<noteq> []" "length (PIN pin) < 7" for cmdBridges pin
    using that by (simp add: IsSaneForInternet_def check_PIN_first)
  ultimately show ?thesis by blast
qed

theorem IsSaneForInternet_PIN_findings_witness:
  "first_PIN (slice_elems (CommandFilters short_PIN_with_shortcuts))
     = Some \<lparr>PIN = ''short'',
             Shortcuts = [(''info'', ''.einfo''), (''lock'', ''.elock''), (''stop'', ''.estop'')]\<rparr>
   \<and> PINTooShort \<in> set (IsSaneForInternet short_PIN_with_shortcuts)
   \<and> list_ex PIN_related (IsSaneForInternet short_PIN_with_shortcuts)"
proof -
  have cf: "CommandFilters short_PIN_with_shortcuts =
      Some [CF_PINAndShortcuts
              \<lparr>PIN = ''short'',
               Shortcuts = [(''info'', ''.einfo''), (''lock'', ''.elock''), (''stop'', ''.estop'')]\<rparr>]"
    by (simp add: short_PIN_with_shortcuts_def)
  show ?thesis
    using IsSaneForInternet_PIN_findings [of short_PIN_with_shortcuts] cf
    by (auto simp: slice_elems_def)
qed

text \<open>
  The claim as it is worded fails on that configuration: its PIN is not empty and shorter
  than 7 bytes and it has shortcuts, so the check as specified passes, yet the code
  reports the PIN as too short.
\<close>

theorem IsSaneForInternet_short_PIN_counterexample:
  "PIN_check_as_specified short_PIN_with_shortcuts
   \<and> IsSaneForInternet short_PIN_with_shortcuts = [PINTooShort]
   \<and> PIN_related PINTooShort"
  by (simp add: PIN_check_as_specified_def short_PIN_with_shortcuts_def slice_elems_def
      IsSaneForInternet_def PIN_related_def)

subsection \<open>What reaches the label\<close>

lemma run_feature_locals:
  "run_feature proc cmd logCommandContent override = Some locals \<Longrightarrow>
     l_overrideLintText locals = override \<and> l_bridgeErr locals = None"
  by (auto simp: run_feature_def at_result_def split: option.splits prod.splits)

lemma parse_PLT_locals:
  assumes "parse_PLT proc cmd logCommandContent = Some locals"
  shows "l_bridgeErr locals = None
       \<and> (\<forall>overrideLintText. l_overrideLintText locals = Some overrideLintText \<longrightarrow>
            (\<exists>installed p l. find_LintText (slice_elems (ResultFilters proc)) = Some installed
               \<and> overrideLintText = installed\<lparr>BeginPosition := p, MaxLength := l\<rparr>))"
proof (cases "find_LintText (slice_elems (ResultFilters proc))")
  case None
  with assms show ?thesis by (auto simp: parse_PLT_def at_result_def)
next
  case (Some installed)
  have same: "installed = installed\<lparr>BeginPosition := BeginPosition installed,
                                   MaxLength := MaxLength installed\<rparr>"
    by simp
  have one: "installed\<lparr>BeginPosition := p\<rparr>
               = installed\<lparr>BeginPosition := p, MaxLength := MaxLength installed\<rparr>" for p
    by simp
  from assms Some show ?thesis
    apply (simp add: parse_PLT_def Let_def split: if_splits prod.splits)
    apply (auto simp: at_result_def dest!: run_feature_locals)
    using same one by blast+
qed

lemma until_result_locals:
  assumes "until_result tr proc cmd = Some locals"
  shows "l_bridgeErr locals = snd (walk_command_filters tr (slice_elems (CommandFilters proc)) cmd)
       \<and> (\<forall>overrideLintText. l_overrideLintText locals = Some overrideLintText \<longrightarrow>
            (\<exists>installed p l. find_LintText (slice_elems (ResultFilters proc)) = Some installed
               \<and> overrideLintText = installed\<lparr>BeginPosition := p, MaxLength := l\<rparr>))"
  using assms
  by (auto simp: until_result_def Let_def split: prod.splits if_splits option.splits
      dest: parse_PLT_locals run_feature_locals)


subsection \<open>The error path of the result filters\<close>

lemma walk_result_filters_failure:
  "first_result_filter_error tr override resultBridges ret = Some e \<Longrightarrow>
     Error (snd (walk_result_filters tr bridgeErr override resultBridges ret)) = bridgeErr"
proof (induction tr bridgeErr override resultBridges ret rule: walk_result_filters.induct)
  case (1 tr bridgeErr override ret)
  then show ?case by simp
next
  case (2 tr bridgeErr override other resultBridges ret)
  obtain other' ret' err where t: "Other_Transform tr other ret = (other', ret', err)"
    by (cases "Other_Transform tr other ret")
  show ?case
  proof (cases "err = None")
    case True
    with t "2.prems" have "first_result_filter_error tr override resultBridges ret' = Some e"
      by simp
    with "2.IH" [of "(other', ret', err)" other' "(ret', err)" ret' err] t True
    have "Error (snd (walk_result_filters tr bridgeErr override resultBridges ret')) = bridgeErr"
      by simp
    with t True show ?thesis by (simp add: split_beta)
  next
    case False
    with t show ?thesis by simp
  qed
next
  case (3 tr bridgeErr linter resultBridges ret)
  obtain linter' ret' err where t: "LintText_Transform tr linter ret = (linter', ret', err)"
    by (cases "LintText_Transform tr linter ret")
  show ?case
  proof (cases "err = None")
    case True
    with t "3.prems" have "first_result_filter_error tr None resultBridges ret' = Some e"
      by simp
    with "3.IH" [of "(linter', ret', err)" linter' "(ret', err)" ret' err] t True
    have "Error (snd (walk_result_filters tr bridgeErr None resultBridges ret')) = bridgeErr"
      by simp
    with t True show ?thesis by (simp add: split_beta)
  next
    case False
    with t show ?thesis by simp
  qed
next
  case (4 tr bridgeErr overrideLintText linter resultBridges ret)
  obtain override' ret' err
    where t: "LintText_Transform tr overrideLintText ret = (override', ret', err)"
    by (cases "LintText_Transform tr overrideLintText ret")
  show ?case
  proof (cases "err = None")
    case True
    with t "4.prems"
    have "first_result_filter_error tr (Some override') resultBridges ret' = Some e"
      by simp
    with "4.IH" [of "(override', ret', err)" override' "(ret', err)" ret' err] t True
    have "Error (snd (walk_result_filters tr bridgeErr (Some override') resultBridges ret'))
            = bridgeErr"
      by simp
    with t True show ?thesis by (simp add: split_beta)
  next
    case False
    with t show ?thesis by simp
  qed
qed

lemma Process_result_filter_failure:
  assumes "until_result tr proc cmd = Some locals"
    and "ResultFilters proc = Some resultBridges"
    and "first_result_filter_error tr (l_overrideLintText locals) resultBridges
           (labelled_result locals) = Some e"
  shows "\<exists>ret proc'. Process tr False proc cmd = Some (ret, proc')
           \<and> Error ret = snd (walk_command_filters tr (slice_elems (CommandFilters proc)) cmd)"
proof -
  from walk_result_filters_failure [OF assms(3), of "l_bridgeErr locals"]
  have "Error (fst (from_result tr proc locals)) = l_bridgeErr locals"
    using assms(2) by (simp add: from_result_def split_beta Let_def)
  moreover have "l_bridgeErr locals
                   = snd (walk_command_filters tr (slice_elems (CommandFilters proc)) cmd)"
    using until_result_locals [OF assms(1)] by simp
  ultimately show ?thesis
    using assms(1) by (cases "from_result tr proc locals") (simp add: Process_def)
qed

text \<open>
  C1 on the sample processor. The command passes the command filter and the feature runs;
  then the notifier of the result filters fails. The specification wants the notifier's
  error in the result; \<open>Process\<close> returns the variable \<open>bridgeErr\<close> of the command
  filter loop, which is nil here.
\<close>

theorem Process_result_filter_error_lost:
  "map_option (\<lambda>locals. first_result_filter_error (sample_transforms True)
                  (l_overrideLintText locals) (slice_elems (ResultFilters test_processor))
                  (labelled_result locals))
     (until_result (sample_transforms True) test_processor
        \<lparr>TimeoutSec = 10, Content = ''.s echo hi''\<rparr>)
     = Some (Some (OtherError ''mail not sent''))
   \<and> map_option fst
       (Process (sample_transforms True) False test_processor
          \<lparr>TimeoutSec = 10, Content = ''.s echo hi''\<rparr>)
     = Some \<lparr>Command = \<lparr>TimeoutSec = 10, Content = ''.s echo hi''\<rparr>, Error = None,
             Output = [], CombinedOutput = []\<rparr>"
  by code_simp

subsection \<open>The override of the linter\<close>

text \<open>
  When the override is in force at the label: the command filters let the command
  through, what they leave starts, once trimmed, with the PLT prefix, and a linter is
  installed. When the parameters parse, the override is the installed linter with the
  position and the length of the command, and the feature runs under it.
\<close>

lemma trim_prefixes_Nil: "trim_prefixes ws [] = []"
proof -
  have "find (\<lambda>w. w \<noteq> [] \<and> prefix w []) ws = None" by (simp add: find_None_iff)
  then show ?thesis by (subst trim_prefixes.simps) simp
qed

lemma TrimSpace_Nil: "TrimSpace [] = []"
  by (simp only: TrimSpace_def trim_prefixes_Nil rev.simps)

lemma parse_PLT_override_iff:
  assumes "parse_PLT proc cmd logCommandContent = Some locals"
  shows "l_overrideLintText locals \<noteq> None
           \<longleftrightarrow> find_LintText (slice_elems (ResultFilters proc)) \<noteq> None"
  using assms
  by (auto simp: parse_PLT_def at_result_def Let_def
      split: option.splits if_splits prod.splits dest!: run_feature_locals)

lemma override_in_force:
  assumes "until_result tr proc cmd = Some locals"
  shows "l_overrideLintText locals \<noteq> None \<longleftrightarrow>
           snd (walk_command_filters tr (slice_elems (CommandFilters proc)) cmd) = None
           \<and> prefix PrefixCommandPLT
                (TrimSpace (TrimSpace
                   (Content (fst (walk_command_filters tr (slice_elems (CommandFilters proc)) cmd)))))
           \<and> find_LintText (slice_elems (ResultFilters proc)) \<noteq> None"
  using assms
  by (auto simp: until_result_def Trim_def FindAndRemovePrefix_def Let_def TrimSpace_Nil
      PrefixCommandPLT_def
      split: prod.splits if_splits option.splits
      dest: parse_PLT_override_iff run_feature_locals)

lemma parse_PLT_applies_override:
  assumes "find_LintText (slice_elems (ResultFilters proc)) = Some installed"
    and "FindStringSubmatch_PLT (Content cmd) = [whole, p, l, t, rest]"
    and "Atoi p = (P, False)" and "Atoi l = (L, False)" and "Atoi t = (T, False)"
    and "rest \<noteq> []"
  shows "parse_PLT proc cmd logCommandContent
           = run_feature proc (cmd\<lparr>TimeoutSec := T, Content := rest\<rparr>) logCommandContent
               (Some (installed\<lparr>BeginPosition := P, MaxLength := L\<rparr>))"
  using assms by (simp add: parse_PLT_def)

lemma walk_result_filters_frame:
  "map linter_at (fst (walk_result_filters tr bridgeErr (Some overrideLintText) resultBridges ret))
     = map linter_at resultBridges"
proof (induction resultBridges arbitrary: overrideLintText ret)
  case Nil
  show ?case by simp
next
  case (Cons resultBridge resultBridges)
  show ?case
  proof (cases resultBridge)
    case (RF_LintText linter)
    obtain override' ret' err
      where t: "LintText_Transform tr overrideLintText ret = (override', ret', err)"
      by (cases "LintText_Transform tr overrideLintText ret")
    with RF_LintText Cons.IH [of override' ret'] show ?thesis
      by (simp add: split_beta)
  next
    case (RF_Other other)
    obtain other' ret' err where t: "Other_Transform tr other ret = (other', ret', err)"
      by (cases "Other_Transform tr other ret")
    with RF_Other Cons.IH [of overrideLintText ret'] show ?thesis
      by (simp add: split_beta)
  qed
qed

lemma find_LintText_linter_at:
  "map linter_at resultBridges' = map linter_at resultBridges \<Longrightarrow>
     find_LintText resultBridges' = find_LintText resultBridges"
proof (induction resultBridges arbitrary: resultBridges')
  case Nil
  then show ?case by simp
next
  case (Cons resultBridge resultBridges)
  then obtain b' bs' where r: "resultBridges' = b' # bs'" by (cases resultBridges') auto
  with Cons.prems have "linter_at b' = linter_at resultBridge"
    and "map linter_at bs' = map linter_at resultBridges" by simp_all
  with Cons.IH [of bs'] r show ?case
    by (cases b'; cases resultBridge) simp_all
qed

text \<open>
  Whenever a call reaches the label \<open>result\<close> with the override in force, whatever
  became of its parameters, the override is a copy of the first installed linter in
  which only the position and the length may differ, \<open>Process\<close> returns, and the
  processor it leaves has the same linters at the same places.
\<close>

lemma override_frame_at_label:
  assumes "until_result tr proc cmd = Some locals"
    and "l_overrideLintText locals = Some overrideLintText"
  shows "\<exists>ret proc' installed p l.
           Process tr False proc cmd = Some (ret, proc')
           \<and> find_LintText (slice_elems (ResultFilters proc)) = Some installed
           \<and> overrideLintText = installed\<lparr>BeginPosition := p, MaxLength := l\<rparr>
           \<and> map linter_at (slice_elems (ResultFilters proc'))
               = map linter_at (slice_elems (ResultFilters proc))
           \<and> find_LintText (slice_elems (ResultFilters proc')) = Some installed
           \<and> Features proc' = Features proc \<and> CommandFilters proc' = CommandFilters proc"
proof -
  from until_result_locals [OF assms(1)] assms(2)
  obtain installed p l
    where installed: "find_LintText (slice_elems (ResultFilters proc)) = Some installed"
      and copy: "overrideLintText = installed\<lparr>BeginPosition := p, MaxLength := l\<rparr>"
    by blast
  obtain ret proc' where r: "from_result tr proc locals = (ret, proc')"
    by (cases "from_result tr proc locals")
  with assms(1) have returns: "Process tr False proc cmd = Some (ret, proc')"
    by (simp add: Process_def)
  have frame: "map linter_at (slice_elems (ResultFilters proc'))
                 = map linter_at (slice_elems (ResultFilters proc))"
    and rest: "Features proc' = Features proc \<and> CommandFilters proc' = CommandFilters proc"
    using r assms(2) walk_result_filters_frame [of tr "l_bridgeErr locals" overrideLintText]
    by (auto simp: from_result_def slice_elems_def split_beta Let_def split: option.splits)
  from find_LintText_linter_at [OF frame] installed
  have "find_LintText (slice_elems (ResultFilters proc')) = Some installed" by simp
  with returns installed copy frame rest show ?thesis by blast
qed

text \<open>
  The filters that stand before the first linter are run as they are, whatever the
  override, and the walk over the whole list splits at that linter.
\<close>

lemma walk_result_filters_no_linter:
  "\<forall>f \<in> set xs. linter_at f = None \<Longrightarrow>
     walk_result_filters tr e override xs ret = walk_result_filters tr e None xs ret"
proof (induction xs arbitrary: ret)
  case Nil
  show ?case by simp
next
  case (Cons x xs)
  then obtain other where x: "x = RF_Other other" by (cases x) auto
  obtain other' ret' err where t: "Other_Transform tr other ret = (other', ret', err)"
    by (cases "Other_Transform tr other ret")
  from Cons.prems have "\<forall>f \<in> set xs. linter_at f = None" by simp
  from Cons.IH [OF this, of ret'] x t show ?case by simp
qed

lemma walk_result_filters_no_linter_frame:
  "\<forall>f \<in> set xs. linter_at f = None \<Longrightarrow>
     map linter_at (fst (walk_result_filters tr e None xs ret)) = map linter_at xs"
proof (induction xs arbitrary: ret)
  case Nil
  show ?case by simp
next
  case (Cons x xs)
  then obtain other where x: "x = RF_Other other" by (cases x) auto
  obtain other' ret' err where t: "Other_Transform tr other ret = (other', ret', err)"
    by (cases "Other_Transform tr other ret")
  from Cons.prems have "\<forall>f \<in> set xs. linter_at f = None" by simp
  from Cons.IH [OF this, of ret'] x t Cons.prems show ?case by (simp add: split_beta)
qed

lemma walk_result_filters_append:
  assumes "\<forall>f \<in> set xs. linter_at f = None"
  shows "walk_result_filters tr e override (xs @ ys) ret =
           (case walk_result_filters tr e None xs ret of
              (xs', ret1) \<Rightarrow>
                if first_result_filter_error tr None xs ret \<noteq> None then (xs' @ ys, ret1)
                else (case walk_result_filters tr e override ys ret1 of
                        (ys', final) \<Rightarrow> (xs' @ ys', final)))"
  using assms
proof (induction xs arbitrary: ret)
  case Nil
  show ?case by (simp add: split_beta)
next
  case (Cons x xs)
  then obtain other where x: "x = RF_Other other" by (cases x) auto
  obtain other' ret' err where t: "Other_Transform tr other ret = (other', ret', err)"
    by (cases "Other_Transform tr other ret")
  from Cons.prems have "\<forall>f \<in> set xs. linter_at f = None" by simp
  from Cons.IH [OF this, of ret'] x t show ?case by (auto simp: split_beta)
qed

lemma find_LintText_first:
  "\<forall>f \<in> set before. linter_at f = None \<Longrightarrow>
     find_LintText (before @ RF_LintText installed # after) = Some installed"
proof (induction before)
  case Nil
  show ?case by simp
next
  case (Cons x xs)
  then obtain other where "x = RF_Other other" by (cases x) auto
  with Cons show ?case by simp
qed

lemma run_feature_override:
  "run_feature proc cmd logCommandContent override
     = map_option (\<lambda>locals. locals\<lparr>l_overrideLintText := override\<rparr>)
         (run_feature proc cmd logCommandContent None)"
  by (simp add: run_feature_def at_result_def split: option.split prod.split)

lemma labelled_result_override:
  "labelled_result (locals\<lparr>l_overrideLintText := override\<rparr>) = labelled_result locals"
  by (simp add: labelled_result_def)

lemma run_feature_bridgeErr:
  "run_feature proc cmd logCommandContent override = Some locals \<Longrightarrow> l_bridgeErr locals = None"
  by (auto simp: run_feature_def at_result_def split: option.splits prod.splits)

lemma until_result_PLT:
  assumes "walk_command_filters tr (slice_elems (CommandFilters proc)) cmd = (passed, None)"
    and "Trim passed = (trimmed, None)"
    and "FindAndRemovePrefix PrefixCommandPLT trimmed = (True, stripped)"
    and "FindStringSubmatch_PLT (Content stripped) = [whole, p, l, t, command]"
    and "Atoi p = (P, False)" and "Atoi l = (L, False)" and "Atoi t = (T, False)"
    and "command \<noteq> []"
    and "ResultFilters proc = Some (before @ RF_LintText installed # after)"
    and "\<forall>f \<in> set before. linter_at f = None"
    and "run_feature proc (stripped\<lparr>TimeoutSec := T, Content := command\<rparr>) (Content trimmed) None
           = Some dispatched"
  shows "until_result tr proc cmd
           = Some (dispatched\<lparr>l_overrideLintText :=
                                 Some (installed\<lparr>BeginPosition := P, MaxLength := L\<rparr>)\<rparr>)"
proof -
  have found: "find_LintText (slice_elems (ResultFilters proc)) = Some installed"
    using assms(9) find_LintText_first [OF assms(10)] by (simp add: slice_elems_def)
  have "parse_PLT proc stripped (Content trimmed)
          = run_feature proc (stripped\<lparr>TimeoutSec := T, Content := command\<rparr>) (Content trimmed)
              (Some (installed\<lparr>BeginPosition := P, MaxLength := L\<rparr>))"
    using found assms(4-8) by (simp add: parse_PLT_def)
  also have "\<dots> = Some (dispatched\<lparr>l_overrideLintText :=
                                 Some (installed\<lparr>BeginPosition := P, MaxLength := L\<rparr>)\<rparr>)"
    using assms(11) by (subst run_feature_override) simp
  finally show ?thesis
    using assms(1-3) by (simp add: until_result_def)
qed

text \<open>
  C8. Take a command that the command filters let through and that, once trimmed, carries
  the PLT prefix with parameters \<open>P\<close>, \<open>L\<close> and \<open>T\<close> that parse and a command after
  them, on a processor whose first linter is \<open>installed\<close>. Then \<open>Process\<close> returns, and
  the result filters ran as follows: the filters before the linter on the result of the
  feature; then the linter's \<open>Transform\<close> on the copy of \<open>installed\<close> whose position is
  \<open>P\<close> and whose length is \<open>L\<close>, not on \<open>installed\<close>; then the remaining filters,
  any further linter again replaced by that copy as the call left it. What \<open>Process\<close>
  returns is the result of that run. In the processor it leaves, \<open>installed\<close> stands where
  it stood with every field as before (so do all other linters), and the features and the
  command filters are as before. The copy is a local variable of the call: a later command
  without the prefix runs the installed linter itself (\<open>Process_without_PLT\<close>).
\<close>

theorem Process_PLT_override_frame:
  assumes "walk_command_filters tr (slice_elems (CommandFilters proc)) cmd = (passed, None)"
    and "Trim passed = (trimmed, None)"
    and "FindAndRemovePrefix PrefixCommandPLT trimmed = (True, stripped)"
    and "FindStringSubmatch_PLT (Content stripped) = [whole, p, l, t, command]"
    and "Atoi p = (P, False)" and "Atoi l = (L, False)" and "Atoi t = (T, False)"
    and "command \<noteq> []"
    and "ResultFilters proc = Some (before @ RF_LintText installed # after)"
    and "\<forall>f \<in> set before. linter_at f = None"
    and "run_feature proc (stripped\<lparr>TimeoutSec := T, Content := command\<rparr>) (Content trimmed) None
           = Some dispatched"
  shows "\<exists>ret proc'.
           Process tr False proc cmd = Some (ret, proc')
           \<and> (case walk_result_filters tr None None before (labelled_result dispatched) of
                (before', ret1) \<Rightarrow>
                  if first_result_filter_error tr None before (labelled_result dispatched) \<noteq> None
                  then ret = ret1
                       \<and> ResultFilters proc' = Some (before' @ RF_LintText installed # after)
                  else
                    (case LintText_Transform tr (installed\<lparr>BeginPosition := P, MaxLength := L\<rparr>)
                            ret1 of
                       (copy', ret2, err) \<Rightarrow>
                         if err \<noteq> None
                         then Command ret = Command ret2 \<and> Output ret = []
                              \<and> CombinedOutput ret = []
                              \<and> ResultFilters proc'
                                  = Some (before' @ RF_LintText installed # after)
                         else
                           (case walk_result_filters tr None (Some copy') after ret2 of
                              (after', final) \<Rightarrow>
                                ret = final
                                \<and> ResultFilters proc'
                                    = Some (before' @ RF_LintText installed # after'))))
           \<and> map linter_at (slice_elems (ResultFilters proc'))
               = map linter_at (before @ RF_LintText installed # after)
           \<and> Features proc' = Features proc \<and> CommandFilters proc' = CommandFilters proc"
proof -
  let ?copy = "installed\<lparr>BeginPosition := P, MaxLength := L\<rparr>"
  let ?locals = "dispatched\<lparr>l_overrideLintText := Some ?copy\<rparr>"
  let ?ret0 = "labelled_result dispatched"
  have at_label: "until_result tr proc cmd = Some ?locals"
    using assms by (rule until_result_PLT)
  have nil: "l_bridgeErr dispatched = None" using assms(11) by (rule run_feature_bridgeErr)
  obtain before' ret1 where pre: "walk_result_filters tr None None before ?ret0 = (before', ret1)"
    by (cases "walk_result_filters tr None None before ?ret0")
  obtain copy' ret2 err where lint: "LintText_Transform tr ?copy ret1 = (copy', ret2, err)"
    by (cases "LintText_Transform tr ?copy ret1")
  obtain after' final
    where post: "walk_result_filters tr None (Some copy') after ret2 = (after', final)"
    by (cases "walk_result_filters tr None (Some copy') after ret2")
  have walk: "walk_result_filters tr None (Some ?copy) (before @ RF_LintText installed # after) ?ret0
      = (if first_result_filter_error tr None before ?ret0 \<noteq> None
         then (before' @ RF_LintText installed # after, ret1)
         else if err \<noteq> None
              then (before' @ RF_LintText installed # after,
                    \<lparr>Command = Command ret2, Error = None, Output = [], CombinedOutput = []\<rparr>)
              else (before' @ RF_LintText installed # after', final))"
    using pre lint post by (simp add: walk_result_filters_append [OF assms(10)])
  have process: "Process tr False proc cmd
      = Some (snd (walk_result_filters tr None (Some ?copy)
                     (before @ RF_LintText installed # after) ?ret0),
              proc\<lparr>ResultFilters :=
                     Some (fst (walk_result_filters tr None (Some ?copy)
                                  (before @ RF_LintText installed # after) ?ret0))\<rparr>)"
    using at_label nil assms(9)
    by (simp add: Process_def from_result_def labelled_result_override split_beta Let_def)
  have frame_before: "map linter_at before' = map linter_at before"
    using walk_result_filters_no_linter_frame [OF assms(10), of tr None ?ret0] pre by simp
  have frame_after: "map linter_at after' = map linter_at after"
    using walk_result_filters_frame [of tr None copy' after ret2] post by simp
  show ?thesis
    unfolding process walk
    using pre lint post frame_before frame_after
    by (simp add: slice_elems_def)
qed

text \<open>
  A command without the prefix, for comparison: the linter's \<open>Transform\<close> runs on the
  installed linter, which keeps what the call does to it.
\<close>

lemma Process_without_PLT:
  assumes "walk_command_filters tr (slice_elems (CommandFilters proc)) cmd = (passed, None)"
    and "Trim passed = (trimmed, None)"
    and "FindAndRemovePrefix PrefixCommandPLT trimmed = (False, unchanged)"
    and "ResultFilters proc = Some (before @ RF_LintText installed # after)"
    and "\<forall>f \<in> set before. linter_at f = None"
    and "run_feature proc unchanged (Content trimmed) None = Some dispatched"
  shows "\<exists>ret proc'.
           Process tr False proc cmd = Some (ret, proc')
           \<and> (case walk_result_filters tr None None before (labelled_result dispatched) of
                (before', ret1) \<Rightarrow>
                  if first_result_filter_error tr None before (labelled_result dispatched) \<noteq> None
                  then ret = ret1
                       \<and> ResultFilters proc' = Some (before' @ RF_LintText installed # after)
                  else
                    (case LintText_Transform tr installed ret1 of
                       (installed', ret2, err) \<Rightarrow>
                         if err \<noteq> None
                         then Command ret = Command ret2 \<and> Output ret = []
                              \<and> CombinedOutput ret = []
                              \<and> ResultFilters proc'
                                  = Some (before' @ RF_LintText installed' # after)
                         else
                           (case walk_result_filters tr None None after ret2 of
                              (after', final) \<Rightarrow>
                                ret = final
                                \<and> ResultFilters proc'
                                    = Some (before' @ RF_LintText installed' # after'))))"
proof -
  let ?ret0 = "labelled_result dispatched"
  have at_label: "until_result tr proc cmd = Some dispatched"
    using assms(1-3,6) by (simp add: until_result_def)
  have nil: "l_bridgeErr dispatched = None"
    and none: "l_overrideLintText dispatched = None"
    using run_feature_locals [OF assms(6)] by simp_all
  obtain before' ret1 where pre: "walk_result_filters tr None None before ?ret0 = (before', ret1)"
    by (cases "walk_result_filters tr None None before ?ret0")
  obtain installed' ret2 err
    where lint: "LintText_Transform tr installed ret1 = (installed', ret2, err)"
    by (cases "LintText_Transform tr installed ret1")
  obtain after' final
    where post: "walk_result_filters tr None None after ret2 = (after', final)"
    by (cases "walk_result_filters tr None None after ret2")
  have walk: "walk_result_filters tr None None (before @ RF_LintText installed # after) ?ret0
      = (if first_result_filter_error tr None before ?ret0 \<noteq> None
         then (before' @ RF_LintText installed # after, ret1)
         else if err \<noteq> None
              then (before' @ RF_LintText installed' # after,
                    \<lparr>Command = Command ret2, Error = None, Output = [], CombinedOutput = []\<rparr>)
              else (before' @ RF_LintText installed' # after', final))"
    using pre lint post by (simp add: walk_result_filters_append [OF assms(5)])
  have process: "Process tr False proc cmd
      = Some (snd (walk_result_filters tr None None
                     (before @ RF_LintText installed # after) ?ret0),
              proc\<lparr>ResultFilters :=
                     Some (fst (walk_result_filters tr None None
                                  (before @ RF_LintText installed # after) ?ret0))\<rparr>)"
    using at_label nil none assms(4)
    by (simp add: Process_def from_result_def split_beta Let_def)
  show ?thesis
    unfolding process walk
    using pre lint post by simp
qed

text \<open>
  On the sample processor the command \<open>.plt 5 3 7 .s echo hi\<close> runs the feature under
  a copy of the linter with position 5 and length 3: the output is cut to \<open>hi\<close>, the
  installed linter is as it was, and the next command, without the prefix, is cut by the
  installed settings again.
\<close>

lemma PLT_sample_filters_pass:
  "walk_command_filters (sample_transforms False) (slice_elems (CommandFilters test_processor))
       \<lparr>TimeoutSec = 10, Content = '' .plt 5 3 7  .s echo hi ''\<rparr>
     = (\<lparr>TimeoutSec = 10, Content = '' .plt 5 3 7  .s echo hi ''\<rparr>, None)"
  by code_simp

lemma PLT_sample_trimmed:
  "Trim \<lparr>TimeoutSec = 10, Content = '' .plt 5 3 7  .s echo hi ''\<rparr>
     = (\<lparr>TimeoutSec = 10, Content = ''.plt 5 3 7  .s echo hi''\<rparr>, None)"
  by code_simp

lemma PLT_sample_stripped:
  "FindAndRemovePrefix PrefixCommandPLT \<lparr>TimeoutSec = 10, Content = ''.plt 5 3 7  .s echo hi''\<rparr>
     = (True, \<lparr>TimeoutSec = 10, Content = ''5 3 7  .s echo hi''\<rparr>)"
  by code_simp

lemma PLT_sample_params:
  "FindStringSubmatch_PLT ''5 3 7  .s echo hi''
     = [''5 3 7  .s echo hi'', ''5'', ''3'', ''7'', ''  .s echo hi'']"
  "Atoi ''5'' = (5, False)" "Atoi ''3'' = (3, False)" "Atoi ''7'' = (7, False)"
  by code_simp+

lemma PLT_sample_dispatched:
  "run_feature test_processor \<lparr>TimeoutSec = 7, Content = ''  .s echo hi''\<rparr>
       ''.plt 5 3 7  .s echo hi'' None
     = Some \<lparr>l_ret = \<lparr>Command = \<lparr>TimeoutSec = 0, Content = []\<rparr>, Error = None,
                      Output = ''echo hi'', CombinedOutput = []\<rparr>,
             l_cmd = \<lparr>TimeoutSec = 7, Content = ''echo hi''\<rparr>,
             l_logCommandContent = ''.plt 5 3 7  .s echo hi'',
             l_bridgeErr = None, l_overrideLintText = None\<rparr>"
  by code_simp

lemma Process_sample_after_PLT:
  "Option.bind
     (Process (sample_transforms False) False test_processor
        \<lparr>TimeoutSec = 10, Content = '' .plt 5 3 7  .s echo hi ''\<rparr>)
     (\<lambda>(ret, proc').
        map_option (CombinedOutput \<circ> fst)
          (Process (sample_transforms False) False proc'
             \<lparr>TimeoutSec = 10, Content = ''.s echo hi''\<rparr>))
     = Some ''echo hi''"
  by code_simp

theorem Process_PLT_override_frame_witness:
  "map_option fst
     (Process (sample_transforms False) False test_processor
        \<lparr>TimeoutSec = 10, Content = '' .plt 5 3 7  .s echo hi ''\<rparr>)
     = Some \<lparr>Command = \<lparr>TimeoutSec = 7, Content = ''.plt 5 3 7  .s echo hi''\<rparr>, Error = None,
             Output = ''echo hi'', CombinedOutput = ''hi''\<rparr>
   \<and> map_option (ResultFilters \<circ> snd)
       (Process (sample_transforms False) False test_processor
          \<lparr>TimeoutSec = 10, Content = '' .plt 5 3 7  .s echo hi ''\<rparr>)
     = Some (Some [RF_LintText test_linter, RF_Other ''NotifyViaEmail''])
   \<and> Option.bind
       (Process (sample_transforms False) False test_processor
          \<lparr>TimeoutSec = 10, Content = '' .plt 5 3 7  .s echo hi ''\<rparr>)
       (\<lambda>(ret, proc').
          map_option (CombinedOutput \<circ> fst)
            (Process (sample_transforms False) False proc'
               \<lparr>TimeoutSec = 10, Content = ''.s echo hi''\<rparr>))
     = Some ''echo hi''"
proof -
  let ?cmd = "\<lparr>TimeoutSec = 10, Content = '' .plt 5 3 7  .s echo hi ''\<rparr>"
  have filters: "ResultFilters test_processor
                   = Some ([] @ RF_LintText test_linter # [RF_Other ''NotifyViaEmail''])"
    by (simp add: test_processor_def)
  have none: "\<forall>f \<in> set ([] :: string ResultFilter list). linter_at f = None" by simp
  have dispatched: "run_feature test_processor
      (\<lparr>TimeoutSec = 10, Content = ''5 3 7  .s echo hi''\<rparr>
         \<lparr>TimeoutSec := 7, Content := ''  .s echo hi''\<rparr>)
      (Content \<lparr>TimeoutSec = 10, Content = ''.plt 5 3 7  .s echo hi''\<rparr>) None
     = Some \<lparr>l_ret = \<lparr>Command = \<lparr>TimeoutSec = 0, Content = []\<rparr>, Error = None,
                      Output = ''echo hi'', CombinedOutput = []\<rparr>,
             l_cmd = \<lparr>TimeoutSec = 7, Content = ''echo hi''\<rparr>,
             l_logCommandContent = ''.plt 5 3 7  .s echo hi'',
             l_bridgeErr = None, l_overrideLintText = None\<rparr>"
    using PLT_sample_dispatched by simp
  from Process_PLT_override_frame [OF PLT_sample_filters_pass PLT_sample_trimmed
      PLT_sample_stripped _ PLT_sample_params(2-4) _ filters none dispatched]
    PLT_sample_params(1)
  obtain ret proc'
    where p: "Process (sample_transforms False) False test_processor ?cmd = Some (ret, proc')"
      and r: "ret = \<lparr>Command = \<lparr>TimeoutSec = 7, Content = ''.plt 5 3 7  .s echo hi''\<rparr>,
                     Error = None, Output = ''echo hi'', CombinedOutput = ''hi''\<rparr>"
      and f: "ResultFilters proc' = Some [RF_LintText test_linter, RF_Other ''NotifyViaEmail'']"
    by (auto simp: labelled_result_def sample_transforms_def slicing_linter_def test_linter_def
        split_beta)
  from p r f Process_sample_after_PLT show ?thesis by simp
qed


section \<open>Properties of the rate limiter\<close>

subsection \<open>One call\<close>

text \<open>
  C3, as the code has it. A call first resets the counters, the logged set and the time
  stamp when the unit has passed. It then admits the actor exactly when the actor's
  counter (0 when there is none) is still below the maximum, and only then increments it:
  a refused call leaves the counter as it is. Nothing else changes but the logged set,
  which takes the actor in when a refusal is logged, and the call returns unless it has
  to log into the nil set that \<open>Initialise\<close> leaves.
\<close>

theorem Add_behaviour:
  assumes "1 \<le> MaxCount limit"
  shows "let due = (now - lastTimestamp limit \<ge> UnitSecs limit);
             old = (if due then 0 else count_of limit actor);
             admitted = (old + 1 \<le> MaxCount limit)
         in (case Add now actor logIfLimitHit limit of
               None \<Rightarrow> \<not> due \<and> logged limit = None \<and> \<not> admitted \<and> logIfLimitHit
             | Some (verdict, limit') \<Rightarrow>
                 verdict = admitted
                 \<and> (due \<or> logged limit \<noteq> None \<or> admitted \<or> \<not> logIfLimitHit)
                 \<and> lastTimestamp limit' = (if due then now else lastTimestamp limit)
                 \<and> UnitSecs limit' = UnitSecs limit \<and> MaxCount limit' = MaxCount limit
                 \<and> count_of limit' actor = (if admitted then old + 1 else old)
                 \<and> (\<forall>other. other \<noteq> actor \<longrightarrow>
                       counter limit' other = (if due then None else counter limit other))
                 \<and> (due \<longrightarrow> logged limit' = Some {})
                 \<and> (\<not> due \<longrightarrow>
                       logged limit' = logged limit
                       \<or> (\<not> admitted \<and> logIfLimitHit
                           \<and> (\<exists>l. logged limit = Some l
                                  \<and> logged limit' = Some (insert actor l)))))"
  using assms
  by (auto simp: Add_def reset_if_due_def count_of_def Let_def split: option.splits)


theorem Add_behaviour_witness:
  "1 \<le> MaxCount (new_RateLimit 10 1)
   \<and> verdicts_and_count ''a'' (Adds (new_RateLimit 10 1) [(100, ''a'', True)])
       = Some ([True], Some 1)"
proof -
  have m: "1 \<le> MaxCount (new_RateLimit 10 1)" by (simp add: new_RateLimit_def)
  from Add_behaviour [OF m, of 100 "''a''" True]
  obtain limit' where a: "Add 100 ''a'' True (new_RateLimit 10 1) = Some (True, limit')"
    and c: "count_of limit' ''a'' = 1"
    by (auto simp: new_RateLimit_def count_of_def Let_def split: option.splits)
  from c have "counter limit' ''a'' = Some 1 \<or> counter limit' ''a'' = None \<and> (0::int) = 1"
    by (auto simp: count_of_def split: option.splits)
  then have "counter limit' ''a'' = Some 1" by simp
  with a m show ?thesis by (simp add: verdicts_and_count_def)
qed

text \<open>
  The claim as it is worded fails on the second of two calls of one actor within a unit,
  under a maximum of 1. The call is refused and the counter stays at 1; by the wording it
  would be incremented to 2.
\<close>

theorem Add_refused_counterexample:
  "Initialise (new_RateLimit 10 1) \<noteq> None
   \<and> verdicts_and_count ''a'' (Adds (new_RateLimit 10 1) [(100, ''a'', True), (105, ''a'', True)])
       = Some ([True, False], Some 1)
   \<and> (case Adds_spec (new_RateLimit 10 1) [(100, ''a'', True), (105, ''a'', True)] of
         (verdicts, limit) \<Rightarrow> (verdicts, counter limit ''a''))
       = ([True, False], Some 2)"
  by (simp add: Initialise_def new_RateLimit_def verdicts_and_count_def Add_def Add_spec_def
      reset_if_due_def count_of_def Let_def)


subsection \<open>Histories of calls\<close>

lemma Add_step:
  assumes "Add now a l limit = Some (admitted, limit1)" and "1 \<le> MaxCount limit"
  shows "UnitSecs limit1 = UnitSecs limit" and "MaxCount limit1 = MaxCount limit"
    and "lastTimestamp limit1
           = (if now - lastTimestamp limit \<ge> UnitSecs limit then now else lastTimestamp limit)"
    and "count_of limit1 actor
           = (if now - lastTimestamp limit \<ge> UnitSecs limit then 0 else count_of limit actor)
             + (if a = actor \<and> admitted then 1 else 0)"
    and "a = actor \<and> admitted \<longrightarrow> count_of limit1 actor \<le> MaxCount limit"
    and "now - lastTimestamp limit \<ge> UnitSecs limit \<or> logged limit \<noteq> None
           \<longrightarrow> logged limit1 \<noteq> None"
  using assms
  by (auto simp: Add_def reset_if_due_def count_of_def Let_def split: option.splits if_splits)

lemma Add_returns:
  "now - lastTimestamp limit \<ge> UnitSecs limit \<or> logged limit \<noteq> None \<Longrightarrow>
     \<exists>admitted limit1. Add now a l limit = Some (admitted, limit1)"
  by (auto simp: Add_def reset_if_due_def Let_def split: option.splits)

lemma Adds_returns:
  "1 \<le> MaxCount limit \<Longrightarrow> logged limit \<noteq> None \<Longrightarrow>
     \<exists>verdicts limit'. Adds limit calls = Some (verdicts, limit')"
proof (induction calls arbitrary: limit)
  case Nil
  show ?case by simp
next
  case (Cons call calls)
  obtain now a l where call: "call = (now, a, l)" by (cases call)
  from Add_returns [where now = now and limit = limit and a = a and l = l] Cons.prems(2)
  obtain admitted limit1 where a1: "Add now a l limit = Some (admitted, limit1)" by blast
  from Add_step(2,6) [OF a1 Cons.prems(1)] Cons.prems
  have "1 \<le> MaxCount limit1" "logged limit1 \<noteq> None" by simp_all
  from Cons.IH [OF this] obtain verdicts limit' where "Adds limit1 calls = Some (verdicts, limit')"
    by blast
  with a1 call show ?case by simp
qed

lemma Adds_same_window:
  assumes "1 \<le> MaxCount limit"
    and "\<forall>call \<in> set calls. fst call - lastTimestamp limit < UnitSecs limit"
    and "Adds limit calls = Some (verdicts, limit')"
  shows "count_of limit' actor = count_of limit actor + int (admissions actor calls verdicts)
       \<and> (0 < admissions actor calls verdicts \<longrightarrow> count_of limit' actor \<le> MaxCount limit)"
  using assms
proof (induction calls arbitrary: limit verdicts)
  case Nil
  then show ?case by simp
next
  case (Cons call calls)
  obtain now a l where call: "call = (now, a, l)" by (cases call)
  from Cons.prems(3) call obtain admitted limit1 vs
    where a1: "Add now a l limit = Some (admitted, limit1)"
      and rest: "Adds limit1 calls = Some (vs, limit')"
      and verdicts: "verdicts = admitted # vs"
    by (auto split: option.splits)
  have nodue: "\<not> now - lastTimestamp limit \<ge> UnitSecs limit"
    using Cons.prems(2) call by auto
  note step = Add_step [OF a1 Cons.prems(1)]
  have m1: "1 \<le> MaxCount limit1" using step(2) Cons.prems(1) by simp
  have w1: "\<forall>call \<in> set calls. fst call - lastTimestamp limit1 < UnitSecs limit1"
    using Cons.prems(2) step(1,3) nodue by simp
  from Cons.IH [OF m1 w1 rest]
  have ih: "count_of limit' actor = count_of limit1 actor + int (admissions actor calls vs)"
    "0 < admissions actor calls vs \<longrightarrow> count_of limit' actor \<le> MaxCount limit1"
    by blast+
  from ih step(2,4,5) nodue call verdicts show ?case by auto
qed

lemma admissions_within_outside:
  "\<forall>call \<in> set calls. start + len \<le> fst call \<Longrightarrow>
     admissions_within actor start len calls verdicts = 0"
  by (induction actor start len calls verdicts rule: admissions_within.induct) auto

lemma admissions_within_bound:
  assumes "1 \<le> M" and "MaxCount limit = M" and "UnitSecs limit = U"
    and "sorted (map fst calls)"
    and "0 \<le> count_of limit actor"
    and "Adds limit calls = Some (verdicts, limit')"
  shows "int (admissions_within actor start U calls verdicts)
           \<le> (if start \<le> lastTimestamp limit then max 0 (M - count_of limit actor)
               else if calls \<noteq> [] \<and> start \<le> fst (hd calls)
                    then max 0 (M - count_of limit actor) + M
               else 2 * M)"
  using assms(2-)
proof (induction calls arbitrary: limit verdicts)
  case Nil
  with assms(1) show ?case by simp
next
  case (Cons call calls)
  obtain now a l where call: "call = (now, a, l)" by (cases call)
  from Cons.prems(5) call obtain admitted limit1 vs
    where a1: "Add now a l limit = Some (admitted, limit1)"
      and rest: "Adds limit1 calls = Some (vs, limit')"
      and verdicts: "verdicts = admitted # vs"
    by (auto split: option.splits)
  have M: "1 \<le> MaxCount limit" using assms(1) Cons.prems(1) by simp
  note step = Add_step [OF a1 M]
  let ?due = "now - lastTimestamp limit \<ge> UnitSecs limit"
  let ?d = "if a = actor \<and> admitted then 1 else (0::int)"
  let ?c0 = "count_of limit actor"
  let ?c1 = "count_of limit1 actor"
  have later: "\<forall>c \<in> set calls. now \<le> fst c" and sorted: "sorted (map fst calls)"
    using Cons.prems(3) call by auto
  have c1: "?c1 = (if ?due then 0 else ?c0) + ?d" using step(4) by simp
  have c1_nonneg: "0 \<le> ?c1" using c1 Cons.prems(4) by auto
  have c1_le: "?d = 1 \<longrightarrow> ?c1 \<le> M" using step(5) Cons.prems(1) by auto
  have T1: "lastTimestamp limit1 = (if ?due then now else lastTimestamp limit)"
    using step(3) by simp
  have ih: "int (admissions_within actor start U calls vs)
           \<le> (if start \<le> lastTimestamp limit1 then max 0 (M - ?c1)
               else if calls \<noteq> [] \<and> start \<le> fst (hd calls) then max 0 (M - ?c1) + M
               else 2 * M)"
    using Cons.IH [OF _ _ sorted c1_nonneg rest] step(1,2) Cons.prems(1,2) by simp
  have split: "int (admissions_within actor start U (call # calls) verdicts)
           = (if a = actor \<and> admitted \<and> start \<le> now \<and> now < start + U then 1 else 0)
             + int (admissions_within actor start U calls vs)"
    using call verdicts by simp
  show ?case
  proof (cases "start \<le> lastTimestamp limit")
    case True
    show ?thesis
    proof (cases ?due)
      case True
      with \<open>start \<le> lastTimestamp limit\<close> Cons.prems(2) have out: "start + U \<le> now" by simp
      with later have "\<forall>c \<in> set calls. start + U \<le> fst c" by auto
      then have "admissions_within actor start U calls vs = 0"
        by (rule admissions_within_outside)
      with split out \<open>start \<le> lastTimestamp limit\<close> show ?thesis by simp
    next
      case False
      with True ih T1 c1 c1_le split show ?thesis by (auto split: if_splits)
    qed
  next
    case before: False
    show ?thesis
    proof (cases "start \<le> now")
      case True
      show ?thesis
      proof (cases ?due)
        case due: True
        with True T1 ih c1 have "int (admissions_within actor start U calls vs) \<le> max 0 (M - ?d)"
          by simp
        with split assms(1) have "int (admissions_within actor start U (call # calls) verdicts) \<le> M"
          by (auto split: if_splits)
        with before True call show ?thesis by simp
      next
        case nodue: False
        show ?thesis
        proof (cases "calls = []")
          case True
          then have "admissions_within actor start U calls vs = 0" by simp
          with split before \<open>start \<le> now\<close> call c1 c1_le nodue assms(1) show ?thesis
            by (auto split: if_splits)
        next
          case False
          then have "hd calls \<in> set calls" by simp
          with later \<open>start \<le> now\<close> have "start \<le> fst (hd calls)" by force
          with False before nodue T1 ih
          have "int (admissions_within actor start U calls vs) \<le> max 0 (M - ?c1) + M" by simp
          with split before \<open>start \<le> now\<close> call c1 c1_le nodue assms(1) show ?thesis
            by (auto split: if_splits)
        qed
      qed
    next
      case False
      from ih c1_nonneg assms(1)
      have "int (admissions_within actor start U calls vs) \<le> 2 * M"
        by (auto split: if_splits)
      with split before False call show ?thesis by simp
    qed
  qed
qed


text \<open>
  C2, as the code has it. The limiter is a fixed-window counter. Within one window, that
  is among a call that resets the counters and the calls after it that come less than a
  unit later, an actor is admitted at most \<open>MaxCount\<close> times (and every such call
  returns). An arbitrary interval of the length of a unit can straddle one reset: in a
  history whose clock readings do not decrease, it holds at most twice \<open>MaxCount\<close>
  admissions of an actor.
\<close>

theorem Adds_window_bounds:
  assumes "1 \<le> MaxCount limit"
  shows "(UnitSecs limit \<le> now - lastTimestamp limit
          \<and> (\<forall>call \<in> set calls. fst call - now < UnitSecs limit) \<longrightarrow>
            (\<exists>verdicts limit'. Adds limit ((now, a, l) # calls) = Some (verdicts, limit')
               \<and> int (admissions actor ((now, a, l) # calls) verdicts) \<le> MaxCount limit))
       \<and> (\<forall>history verdicts limit' start.
            sorted (map fst history) \<and> 0 \<le> count_of limit actor
            \<and> Adds limit history = Some (verdicts, limit') \<longrightarrow>
            int (admissions_within actor start (UnitSecs limit) history verdicts)
              \<le> 2 * MaxCount limit)"
proof (intro conjI impI allI)
  assume w: "UnitSecs limit \<le> now - lastTimestamp limit
             \<and> (\<forall>call \<in> set calls. fst call - now < UnitSecs limit)"
  from Add_returns [where now = now and limit = limit and a = a and l = l] w
  obtain admitted limit1 where a1: "Add now a l limit = Some (admitted, limit1)" by blast
  note step = Add_step [OF a1 assms]
  have m1: "1 \<le> MaxCount limit1" and lg: "logged limit1 \<noteq> None"
    using step(2,6) assms w by simp_all
  from Adds_returns [OF m1 lg] obtain vs limit'
    where rest: "Adds limit1 calls = Some (vs, limit')" by blast
  have w1: "\<forall>call \<in> set calls. fst call - lastTimestamp limit1 < UnitSecs limit1"
    using w step(1,3) by simp
  from Adds_same_window [OF m1 w1 rest, of actor]
  have same: "count_of limit' actor = count_of limit1 actor + int (admissions actor calls vs)"
    "0 < admissions actor calls vs \<longrightarrow> count_of limit' actor \<le> MaxCount limit1"
    by blast+
  have c1: "count_of limit1 actor = (if a = actor \<and> admitted then 1 else 0)"
    using step(4) w by simp
  have "int (admissions actor ((now, a, l) # calls) (admitted # vs)) \<le> MaxCount limit"
    using same c1 step(2) assms by (cases "admissions actor calls vs") auto
  with a1 rest
  show "\<exists>verdicts limit'. Adds limit ((now, a, l) # calls) = Some (verdicts, limit')
          \<and> int (admissions actor ((now, a, l) # calls) verdicts) \<le> MaxCount limit"
    by simp
next
  fix history verdicts limit' start
  assume h: "sorted (map fst history) \<and> 0 \<le> count_of limit actor
             \<and> Adds limit history = Some (verdicts, limit')"
  from admissions_within_bound [OF assms refl refl, of history actor verdicts limit' start] h
  have "int (admissions_within actor start (UnitSecs limit) history verdicts)
          \<le> (if start \<le> lastTimestamp limit then max 0 (MaxCount limit - count_of limit actor)
              else if history \<noteq> [] \<and> start \<le> fst (hd history)
                   then max 0 (MaxCount limit - count_of limit actor) + MaxCount limit
              else 2 * MaxCount limit)"
    by blast
  with h assms
  show "int (admissions_within actor start (UnitSecs limit) history verdicts)
          \<le> 2 * MaxCount limit"
    by (auto split: if_splits)
qed

lemma burst_run:
  "map_option fst (Adds (new_RateLimit 10 2) burst) = Some [True, True, False, True, True]"
  by (simp add: burst_def new_RateLimit_def Add_def reset_if_due_def Let_def)

lemma burst_window_run:
  "map_option fst (Adds (new_RateLimit 10 2) (take 3 burst)) = Some [True, True, False]"
  by (simp add: burst_def new_RateLimit_def Add_def reset_if_due_def Let_def)

theorem Adds_window_bounds_witness:
  "1 \<le> MaxCount (new_RateLimit 10 2)
   \<and> map_option fst (Adds (new_RateLimit 10 2) (take 3 burst)) = Some [True, True, False]
   \<and> int (admissions ''a'' (take 3 burst) [True, True, False]) \<le> MaxCount (new_RateLimit 10 2)
   \<and> sorted (map fst burst)
   \<and> map_option fst (Adds (new_RateLimit 10 2) burst) = Some [True, True, False, True, True]
   \<and> int (admissions_within ''a'' 105 (UnitSecs (new_RateLimit 10 2)) burst
             [True, True, False, True, True])
       \<le> 2 * MaxCount (new_RateLimit 10 2)"
proof -
  let ?limit = "new_RateLimit 10 2"
  have m: "1 \<le> MaxCount ?limit" by (simp add: new_RateLimit_def)
  note bounds = Adds_window_bounds [OF m, of 100 "[(108, ''a'', True), (109, ''a'', True)]"
      "''a''" True "''a''"]
  have t3: "take 3 burst = (100, ''a'', True) # [(108, ''a'', True), (109, ''a'', True)]"
    by (simp add: burst_def)
  have opens: "UnitSecs ?limit \<le> 100 - lastTimestamp ?limit
      \<and> (\<forall>call \<in> set [(108, ''a'', True), (109, ''a'', True)]. fst call - 100 < UnitSecs ?limit)"
    by (simp add: new_RateLimit_def)
  with bounds obtain verdicts limit'
    where "Adds ?limit (take 3 burst) = Some (verdicts, limit')"
      and "int (admissions ''a'' (take 3 burst) verdicts) \<le> MaxCount ?limit"
    unfolding t3 by blast
  with burst_window_run
  have window: "int (admissions ''a'' (take 3 burst) [True, True, False]) \<le> MaxCount ?limit"
    by simp
  have sorted: "sorted (map fst burst)" by (simp add: burst_def)
  have c0: "0 \<le> count_of ?limit ''a''" by (simp add: new_RateLimit_def count_of_def)
  from burst_run obtain limit''
    where "Adds ?limit burst = Some ([True, True, False, True, True], limit'')"
    by (cases "Adds ?limit burst") auto
  with bounds sorted c0
  have "int (admissions_within ''a'' 105 (UnitSecs ?limit) burst [True, True, False, True, True])
          \<le> 2 * MaxCount ?limit"
    by blast
  with m window sorted burst_run burst_window_run show ?thesis by simp
qed

text \<open>
  The claim as it is worded fails on the burst under a maximum of 2 per 10 seconds: the
  interval of 10 seconds from 105 on holds the admissions at 108, 110 and 111.
\<close>

theorem Adds_sliding_interval_counterexample:
  "Initialise (new_RateLimit 10 2) \<noteq> None
   \<and> sorted (map fst burst)
   \<and> map_option fst (Adds (new_RateLimit 10 2) burst) = Some [True, True, False, True, True]
   \<and> admissions_within ''a'' 105 (UnitSecs (new_RateLimit 10 2)) burst
         [True, True, False, True, True] = 3
   \<and> \<not> int (admissions_within ''a'' 105 (UnitSecs (new_RateLimit 10 2)) burst
               [True, True, False, True, True])
         \<le> MaxCount (new_RateLimit 10 2)"
proof -
  have "admissions_within ''a'' 105 (UnitSecs (new_RateLimit 10 2)) burst
          [True, True, False, True, True] = 3"
    by (simp add: burst_def new_RateLimit_def)
  moreover have "Initialise (new_RateLimit 10 2) \<noteq> None"
    by (simp add: Initialise_def new_RateLimit_def)
  moreover have "sorted (map fst burst)" by (simp add: burst_def)
  moreover have "MaxCount (new_RateLimit 10 2) = 2" by (simp add: new_RateLimit_def)
  ultimately show ?thesis using burst_run by simp
qed


section \<open>Properties of the encrypted UDP relay\<close>

lemma ErrMalformedUDPPacket_not_closed: "\<not> Contains ErrMalformedUDPPacket ''closed''"
  by (simp add: Contains_def ErrMalformedUDPPacket_def sublist_Cons_right)

text \<open>
  C6, as the code has it. When the datagram is shorter than the initialisation vector,
  \<open>ReadFrom\<close> fails with \<open>ErrMalformedUDPPacket\<close> and gives no source address; the loop
  logs a warning and goes on to the next datagram. The packet is dropped: the handler is
  not started, the rate limiter is not consulted, and nothing is written to the client.
\<close>

theorem StartAndBlockUDP_turn_short_datagram:
  assumes "length buf < IVLength" and "\<not> EmergencyLockDown"
  shows "ReadFrom IVLength Decrypt b (Datagram buf src) = Inl ErrMalformedUDPPacket
       \<and> StartAndBlockUDP_turn IVLength Decrypt HandleUDPConnection EmergencyLockDown now
           rateLimitUDP (Datagram buf src)
         = Some (Continue, [Warningf ''StartAndBlockUDP'' ''failed to read packet''], rateLimitUDP)
       \<and> \<not> replies_to src [Warningf ''StartAndBlockUDP'' ''failed to read packet'']"
  using assms ErrMalformedUDPPacket_not_closed
  by (simp add: StartAndBlockUDP_turn_def ReadFrom_def Let_def replies_to_def)

theorem StartAndBlockUDP_turn_short_datagram_witness:
  "length [1, 2, 3 :: byte] < (16 :: nat)
   \<and> step_and_effects
       (StartAndBlockUDP_turn 16 plain_cipher decoy_handler False 100 (new_RateLimit 10 5)
          (Datagram [1, 2, 3] sample_client))
     = Some (Continue, [Warningf ''StartAndBlockUDP'' ''failed to read packet''])"
  using StartAndBlockUDP_turn_short_datagram [of "[1, 2, 3]" 16 False plain_cipher _
      sample_client decoy_handler 100 "new_RateLimit 10 5"]
  by (simp add: step_and_effects_def)

text \<open>
  The claim as it is worded fails on a datagram of three bytes under a vector of 16, even
  with a handler that would answer any packet with a decoy: the turn writes nothing to the
  client. A datagram of 16 bytes does reach that handler and is answered.
\<close>

theorem short_datagram_decoy_counterexample:
  "step_and_effects
       (StartAndBlockUDP_turn 16 plain_cipher decoy_handler False 100 (new_RateLimit 10 5)
          (Datagram [1, 2, 3] sample_client))
     = Some (Continue, [Warningf ''StartAndBlockUDP'' ''failed to read packet''])
   \<and> \<not> replies_to sample_client [Warningf ''StartAndBlockUDP'' ''failed to read packet'']
   \<and> step_and_effects
       (StartAndBlockUDP_turn 16 plain_cipher decoy_handler False 100 (new_RateLimit 10 5)
          (Datagram (replicate 16 7) sample_client))
     = Some (Continue, [WriteTo [1, 2, 3, 4] sample_client])
   \<and> replies_to sample_client [WriteTo [1, 2, 3, 4] sample_client]"
  using ErrMalformedUDPPacket_not_closed
  by (simp add: step_and_effects_def StartAndBlockUDP_turn_def ReadFrom_def Let_def
      replies_to_def decoy_handler_def WriteRand_def sample_client_def new_RateLimit_def
      Add_def reset_if_due_def)

end
